theory Spec2Isabelle
  imports Complex_Main
begin

section \<open>JavaScript numbers\<close>

text \<open>
  The limiters of \<^verbatim>\<open>src/data-structures/rate-limiter.ts\<close> compute with the TypeScript
  type \<^verbatim>\<open>number\<close>. A number is modelled as a finite value or one of the three
  non-finite values that JavaScript arithmetic produces (a division by a zero
  \<^verbatim>\<open>refillInterval\<close> gives an infinity or NaN, it does not raise). Finite values are
  mathematical reals: exact for the millisecond timestamps and token counts the
  limiters work with, while the rounding of fractions and the sign of zero are not
  represented (a zero divisor counts as \<^verbatim>\<open>+0\<close>).
\<close>

datatype number = Fin real | PosInf | NegInf | NaN

fun num_neg :: "number \<Rightarrow> number" where
  "num_neg (Fin a) = Fin (- a)"
| "num_neg PosInf = NegInf"
| "num_neg NegInf = PosInf"
| "num_neg NaN = NaN"

fun num_add :: "number \<Rightarrow> number \<Rightarrow> number" where
  "num_add (Fin a) (Fin b) = Fin (a + b)"
| "num_add NaN y = NaN"
| "num_add x NaN = NaN"
| "num_add PosInf NegInf = NaN"
| "num_add NegInf PosInf = NaN"
| "num_add PosInf y = PosInf"
| "num_add x PosInf = PosInf"
| "num_add NegInf y = NegInf"
| "num_add x NegInf = NegInf"

definition num_sub :: "number \<Rightarrow> number \<Rightarrow> number" where
  "num_sub x y = num_add x (num_neg y)"

fun num_mul :: "number \<Rightarrow> number \<Rightarrow> number" where
  "num_mul (Fin a) (Fin b) = Fin (a * b)"
| "num_mul NaN y = NaN"
| "num_mul x NaN = NaN"
| "num_mul (Fin a) PosInf = (if 0 < a then PosInf else if a < 0 then NegInf else NaN)"
| "num_mul (Fin a) NegInf = (if 0 < a then NegInf else if a < 0 then PosInf else NaN)"
| "num_mul PosInf (Fin b) = (if 0 < b then PosInf else if b < 0 then NegInf else NaN)"
| "num_mul NegInf (Fin b) = (if 0 < b then NegInf else if b < 0 then PosInf else NaN)"
| "num_mul PosInf PosInf = PosInf"
| "num_mul PosInf NegInf = NegInf"
| "num_mul NegInf PosInf = NegInf"
| "num_mul NegInf NegInf = PosInf"

fun num_div :: "number \<Rightarrow> number \<Rightarrow> number" where
  "num_div (Fin a) (Fin b) =
     (if b \<noteq> 0 then Fin (a / b)
      else if 0 < a then PosInf else if a < 0 then NegInf else NaN)"
| "num_div NaN y = NaN"
| "num_div x NaN = NaN"
| "num_div (Fin a) PosInf = Fin 0"
| "num_div (Fin a) NegInf = Fin 0"
| "num_div PosInf (Fin b) = (if 0 \<le> b then PosInf else NegInf)"
| "num_div NegInf (Fin b) = (if 0 \<le> b then NegInf else PosInf)"
| "num_div PosInf y = NaN"
| "num_div NegInf y = NaN"

text \<open>\<^verbatim>\<open>Math.floor\<close>, \<^verbatim>\<open>Math.ceil\<close> and the two-argument \<^verbatim>\<open>Math.min\<close>.\<close>

fun num_floor :: "number \<Rightarrow> number" where
  "num_floor (Fin a) = Fin (of_int \<lfloor>a\<rfloor>)"
| "num_floor x = x"

fun num_ceil :: "number \<Rightarrow> number" where
  "num_ceil (Fin a) = Fin (of_int \<lceil>a\<rceil>)"
| "num_ceil x = x"

fun num_min :: "number \<Rightarrow> number \<Rightarrow> number" where
  "num_min (Fin a) (Fin b) = Fin (min a b)"
| "num_min NaN y = NaN"
| "num_min x NaN = NaN"
| "num_min NegInf y = NegInf"
| "num_min x NegInf = NegInf"
| "num_min PosInf y = y"
| "num_min x PosInf = x"

text \<open>The comparisons \<^verbatim>\<open>x > y\<close> and \<^verbatim>\<open>x >= y\<close>; both are false when a side is NaN.\<close>

fun num_gt :: "number \<Rightarrow> number \<Rightarrow> bool" where
  "num_gt (Fin a) (Fin b) = (b < a)"
| "num_gt NaN y = False"
| "num_gt x NaN = False"
| "num_gt PosInf PosInf = False"
| "num_gt PosInf y = True"
| "num_gt x PosInf = False"
| "num_gt NegInf y = False"
| "num_gt x NegInf = True"

fun num_ge :: "number \<Rightarrow> number \<Rightarrow> bool" where
  "num_ge (Fin a) (Fin b) = (b \<le> a)"
| "num_ge NaN y = False"
| "num_ge x NaN = False"
| "num_ge PosInf y = True"
| "num_ge NegInf NegInf = True"
| "num_ge x PosInf = False"
| "num_ge NegInf y = False"
| "num_ge x NegInf = True"

definition num_lt :: "number \<Rightarrow> number \<Rightarrow> bool" where
  "num_lt x y = num_gt y x"

definition num_le :: "number \<Rightarrow> number \<Rightarrow> bool" where
  "num_le x y = num_ge y x"

section \<open>Type definitions\<close>

record RateLimitConfig =
  maxTokens :: number
  refillRate :: number
  refillInterval :: number

text \<open>
  \<^verbatim>\<open>resetAt\<close> is a \<^verbatim>\<open>Date\<close> in the source; the model keeps the millisecond value the
  \<^verbatim>\<open>Date\<close> is constructed from. \<^verbatim>\<open>retryAfter\<close> is an optional field.
\<close>

record RateLimitResult =
  allowed :: bool
  remaining :: number
  resetAt :: number
  retryAfter :: "number option"

record TokenBucket =
  tokens :: number
  lastRefill :: number

text \<open>
  A thrown exception, or the rejection of the promise an \<^verbatim>\<open>async\<close> method returns, is the
  left summand of the result.
\<close>

datatype error = Error string | TypeError | StoreFailure

section \<open>RateLimiter (token bucket, in memory)\<close>

text \<open>
  Token buckets are mutable objects: the map \<^verbatim>\<open>buckets\<close> holds references into a heap of
  bucket objects, and \<^verbatim>\<open>refillTokens\<close> writes through the reference it is given. The heap
  is a list, an object's address its index; a new object is appended.
\<close>

type_synonym ref = nat
type_synonym heap = "TokenBucket list"

record RateLimiter =
  config :: RateLimitConfig
  buckets :: "string \<rightharpoonup> ref"
  cleanupInterval :: "number option"

text \<open>
  The constructor stores the configuration and arms the cleanup timer (period 60000 ms).
  It has no other statement: nothing is checked and nothing is thrown.
\<close>

definition RateLimiter_new :: "RateLimitConfig \<Rightarrow> error + RateLimiter" where
  "RateLimiter_new cfg =
     Inr \<lparr>config = cfg, buckets = Map.empty, cleanupInterval = Some (Fin 60000)\<rparr>"

text \<open>
  \<^verbatim>\<open>limit(key, tokensRequested = 1)\<close>: the body is the single statement
  \<^verbatim>\<open>throw new Error("Not implemented")\<close>; the state is not touched.
\<close>

definition RateLimiter_limit ::
  "RateLimiter \<Rightarrow> heap \<Rightarrow> real \<Rightarrow> string \<Rightarrow> number option
     \<Rightarrow> error + (RateLimitResult \<times> RateLimiter \<times> heap)" where
  "RateLimiter_limit L h now key tokensRequested = Inl (Error ''Not implemented'')"

text \<open>
  \<^verbatim>\<open>refillTokens(bucket)\<close>, as a function of the bucket object's fields; \<open>now\<close> is the
  reading of \<^verbatim>\<open>Date.now()\<close>.
\<close>

definition refillTokens :: "RateLimitConfig \<Rightarrow> real \<Rightarrow> TokenBucket \<Rightarrow> TokenBucket" where
  "refillTokens cfg now bucket =
     (let timePassed = num_sub (Fin now) (lastRefill bucket);
          intervalsElapsed = num_floor (num_div timePassed (refillInterval cfg))
      in if num_gt intervalsElapsed (Fin 0)
         then let tokensToAdd = num_mul intervalsElapsed (refillRate cfg)
              in bucket\<lparr>tokens := num_min (maxTokens cfg) (num_add (tokens bucket) tokensToAdd),
                        lastRefill := Fin now\<rparr>
         else bucket)"

text \<open>The same call on the object at address \<open>a\<close> of the heap.\<close>

definition refillTokens_at :: "RateLimitConfig \<Rightarrow> real \<Rightarrow> ref \<Rightarrow> heap \<Rightarrow> heap" where
  "refillTokens_at cfg now a h = h[a := refillTokens cfg now (h ! a)]"

text \<open>
  \<^verbatim>\<open>getStatus(key)\<close>. \<^verbatim>\<open>{ ...bucket }\<close> allocates a copy, \<^verbatim>\<open>refillTokens\<close> runs on the
  copy, and \<^verbatim>\<open>resetAt\<close> is read from the stored object.
\<close>

definition getStatus ::
  "RateLimiter \<Rightarrow> heap \<Rightarrow> real \<Rightarrow> string \<Rightarrow> RateLimitResult \<times> heap" where
  "getStatus L h now key =
     (case buckets L key of
        None \<Rightarrow>
          (\<lparr>allowed = True, remaining = maxTokens (config L),
            resetAt = num_add (Fin now) (refillInterval (config L)), retryAfter = None\<rparr>, h)
      | Some bucket \<Rightarrow>
          let tempBucket = length h;
              h1 = h @ [h ! bucket];
              h2 = refillTokens_at (config L) now tempBucket h1
          in (\<lparr>allowed = num_ge (tokens (h2 ! tempBucket)) (Fin 1),
               remaining = num_floor (tokens (h2 ! tempBucket)),
               resetAt = num_add (lastRefill (h2 ! bucket)) (refillInterval (config L)),
               retryAfter = None\<rparr>, h2))"

text \<open>\<^verbatim>\<open>reset(key)\<close> deletes the key; the bucket object becomes garbage.\<close>

definition reset :: "RateLimiter \<Rightarrow> string \<Rightarrow> RateLimiter" where
  "reset L key = L\<lparr>buckets := (buckets L)(key := None)\<rparr>"

text \<open>
  \<^verbatim>\<open>cleanup()\<close> deletes every key whose bucket has \<^verbatim>\<open>lastRefill < Date.now() - 5 * 60 * 1000\<close>.
\<close>

definition cleanup :: "RateLimiter \<Rightarrow> heap \<Rightarrow> real \<Rightarrow> RateLimiter" where
  "cleanup L h now =
     (let fiveMinutesAgo = num_sub (Fin now) (Fin (5 * 60 * 1000))
      in L\<lparr>buckets := (\<lambda>key. case buckets L key of
                                  None \<Rightarrow> None
                                | Some bucket \<Rightarrow>
                                    if num_lt (lastRefill (h ! bucket)) fiveMinutesAgo
                                    then None else Some bucket)\<rparr>)"

text \<open>\<^verbatim>\<open>destroy()\<close> clears the timer and the map.\<close>

definition destroy :: "RateLimiter \<Rightarrow> RateLimiter" where
  "destroy L = L\<lparr>cleanupInterval := None, buckets := Map.empty\<rparr>"

section \<open>SlidingWindowRateLimiter\<close>

record WindowEntry =
  timestamp :: number
  count :: number

record SlidingWindowRateLimiter =
  windows :: "string \<rightharpoonup> WindowEntry list"
  windowSize :: number
  maxRequests :: number

text \<open>The constructor assigns its two arguments to the fields, unchecked.\<close>

definition SlidingWindowRateLimiter_new ::
  "number \<Rightarrow> number \<Rightarrow> error + SlidingWindowRateLimiter" where
  "SlidingWindowRateLimiter_new ws mr =
     Inr \<lparr>windows = Map.empty, windowSize = ws, maxRequests = mr\<rparr>"

text \<open>
  \<^verbatim>\<open>limit(key)\<close>. \<^verbatim>\<open>filter\<close> builds a new array, so the stored log changes only through
  \<^verbatim>\<open>this.windows.set\<close>, which the allowed branch alone reaches. In the denied branch
  \<^verbatim>\<open>entries[0]\<close> of an empty array is \<^verbatim>\<open>undefined\<close>, and reading its \<^verbatim>\<open>timestamp\<close>
  throws a \<^verbatim>\<open>TypeError\<close>.
\<close>

definition SlidingWindowRateLimiter_limit ::
  "SlidingWindowRateLimiter \<Rightarrow> real \<Rightarrow> string
     \<Rightarrow> error + (RateLimitResult \<times> SlidingWindowRateLimiter)" where
  "SlidingWindowRateLimiter_limit W now key =
     (let windowStart = num_sub (Fin now) (windowSize W);
          entries = (case windows W key of Some es \<Rightarrow> es | None \<Rightarrow> []);
          entries = filter (\<lambda>entry. num_gt (timestamp entry) windowStart) entries;
          totalRequests = foldl (\<lambda>sum entry. num_add sum (count entry)) (Fin 0) entries
      in if num_ge totalRequests (maxRequests W)
         then (case entries of
                 [] \<Rightarrow> Inl TypeError
               | oldestEntry # rest \<Rightarrow>
                   Inr (\<lparr>allowed = False, remaining = Fin 0,
                         resetAt = num_add (timestamp oldestEntry) (windowSize W),
                         retryAfter = Some (num_ceil (num_div
                            (num_sub (num_add (timestamp oldestEntry) (windowSize W)) (Fin now))
                            (Fin 1000)))\<rparr>, W))
         else let entries = entries @ [\<lparr>timestamp = Fin now, count = Fin 1\<rparr>]
              in Inr (\<lparr>allowed = True,
                       remaining = num_sub (num_sub (maxRequests W) totalRequests) (Fin 1),
                       resetAt = num_add (Fin now) (windowSize W),
                       retryAfter = None\<rparr>,
                      W\<lparr>windows := (windows W)(key \<mapsto> entries)\<rparr>))"

section \<open>DistributedRateLimiter\<close>

text \<open>
  The external store (\<^verbatim>\<open>RateLimitStore\<close>) is an interface in the source. Its model keeps,
  for each key, the value and the expiry of the last \<^verbatim>\<open>set\<close>, and two flags that say
  whether \<^verbatim>\<open>get\<close> and \<^verbatim>\<open>set\<close> succeed or reject. Values are kept parsed: the text
  \<^verbatim>\<open>JSON.stringify\<close> writes is represented by the bucket \<^verbatim>\<open>JSON.parse\<close> reads back from
  it. \<^verbatim>\<open>JSON.stringify\<close> writes a non-finite number as \<^verbatim>\<open>null\<close>, and \<^verbatim>\<open>null\<close> behaves as
  \<open>0\<close> in each arithmetic expression and comparison of \<^verbatim>\<open>limit\<close>. An absent entry
  (\<^verbatim>\<open>null\<close>) is \<open>None\<close>; malformed stored text is not represented.
\<close>

record RateLimitStore =
  contents :: "string \<rightharpoonup> TokenBucket \<times> number"
  get_succeeds :: bool
  set_succeeds :: bool

definition json_number :: "number \<Rightarrow> number" where
  "json_number x = (case x of Fin a \<Rightarrow> Fin a | PosInf \<Rightarrow> Fin 0 | NegInf \<Rightarrow> Fin 0 | NaN \<Rightarrow> Fin 0)"

definition json_roundtrip :: "TokenBucket \<Rightarrow> TokenBucket" where
  "json_roundtrip b = \<lparr>tokens = json_number (tokens b), lastRefill = json_number (lastRefill b)\<rparr>"

definition store_get :: "RateLimitStore \<Rightarrow> string \<Rightarrow> error + TokenBucket option" where
  "store_get s k = (if get_succeeds s then Inr (map_option fst (contents s k)) else Inl StoreFailure)"

definition store_set ::
  "RateLimitStore \<Rightarrow> string \<Rightarrow> TokenBucket \<Rightarrow> number \<Rightarrow> error + RateLimitStore" where
  "store_set s k v expiryMs =
     (if set_succeeds s
      then Inr (s\<lparr>contents := (contents s)(k \<mapsto> (json_roundtrip v, expiryMs))\<rparr>)
      else Inl StoreFailure)"

text \<open>
  \<^verbatim>\<open>limit(key)\<close>; the limiter's two members, the configuration and the store, are the first
  two arguments. A rejected \<^verbatim>\<open>await\<close> rejects the call: the method has no \<^verbatim>\<open>try\<close>.
\<close>

definition DistributedRateLimiter_limit ::
  "RateLimitConfig \<Rightarrow> RateLimitStore \<Rightarrow> real \<Rightarrow> string
     \<Rightarrow> error + (RateLimitResult \<times> RateLimitStore)" where
  "DistributedRateLimiter_limit cfg s now key =
     (let bucketKey = ''ratelimit:'' @ key
      in case store_get s bucketKey of
           Inl e \<Rightarrow> Inl e
         | Inr data \<Rightarrow>
             let bucket = (case data of
                             Some b \<Rightarrow> b
                           | None \<Rightarrow> \<lparr>tokens = maxTokens cfg, lastRefill = Fin now\<rparr>);
                 timePassed = num_sub (Fin now) (lastRefill bucket);
                 intervalsElapsed = num_floor (num_div timePassed (refillInterval cfg));
                 bucket =
                   (if num_gt intervalsElapsed (Fin 0)
                    then let tokensToAdd = num_mul intervalsElapsed (refillRate cfg)
                         in bucket\<lparr>tokens := num_min (maxTokens cfg)
                                                 (num_add (tokens bucket) tokensToAdd),
                                   lastRefill := Fin now\<rparr>
                    else bucket)
             in if num_ge (tokens bucket) (Fin 1)
                then let bucket = bucket\<lparr>tokens := num_sub (tokens bucket) (Fin 1)\<rparr>
                     in case store_set s bucketKey bucket (num_mul (refillInterval cfg) (Fin 2)) of
                          Inl e \<Rightarrow> Inl e
                        | Inr s' \<Rightarrow>
                            Inr (\<lparr>allowed = True, remaining = num_floor (tokens bucket),
                                  resetAt = num_add (lastRefill bucket) (refillInterval cfg),
                                  retryAfter = None\<rparr>, s')
                else let retryAfter = num_ceil (num_div
                           (num_sub (refillInterval cfg) timePassed) (Fin 1000))
                     in Inr (\<lparr>allowed = False, remaining = Fin 0,
                              resetAt = num_add (lastRefill bucket) (refillInterval cfg),
                              retryAfter = Some retryAfter\<rparr>, s))"

section \<open>Middleware\<close>

text \<open>
  \<^verbatim>\<open>createRateLimitMiddleware(limiter)\<close> uses one member of the limiter, its \<^verbatim>\<open>limit\<close>
  method, which is the first argument here, with the limiter's state \<open>st\<close>. The
  outcome is either the call of \<^verbatim>\<open>next()\<close> or the 429 response with its body.
  \<^verbatim>\<open>req.user?.id || req.ip\<close> falls back to the address when the user or a non-empty id is
  missing.
\<close>

record Request =
  ip :: string
  user :: "string option"

datatype Response = Next | TooManyRequests "number option" number

definition createRateLimitMiddleware ::
  "('s \<Rightarrow> real \<Rightarrow> string \<Rightarrow> error + (RateLimitResult \<times> 's))
     \<Rightarrow> 's \<Rightarrow> real \<Rightarrow> Request \<Rightarrow> Response \<times> 's" where
  "createRateLimitMiddleware limit st now req =
     (let key = (case user req of
                   Some userId \<Rightarrow> if userId \<noteq> [] then userId else ip req
                 | None \<Rightarrow> ip req)
      in case limit st now key of
           Inr (result, st') \<Rightarrow>
             if \<not> allowed result
             then (TooManyRequests (retryAfter result) (resetAt result), st')
             else (Next, st')
         | Inl e \<Rightarrow> (Next, st))"

section \<open>Sequences of calls and the invariants they keep\<close>

text \<open>
  A map entry of the in-memory limiter refers to an allocated bucket object (a JavaScript
  reference never dangles).
\<close>

definition heap_wf :: "RateLimiter \<Rightarrow> heap \<Rightarrow> bool" where
  "heap_wf L h = (\<forall>key a. buckets L key = Some a \<longrightarrow> a < length h)"

text \<open>Successive \<^verbatim>\<open>getStatus(key)\<close> calls, one at each clock reading of the list.\<close>

fun getStatus_calls ::
  "RateLimiter \<Rightarrow> heap \<Rightarrow> string \<Rightarrow> real list \<Rightarrow> RateLimitResult list \<times> heap" where
  "getStatus_calls L h key [] = ([], h)"
| "getStatus_calls L h key (now # readings) =
     (let (r, h1) = getStatus L h now key;
          (rs, h2) = getStatus_calls L h1 key readings
      in (r # rs, h2))"

text \<open>The capacity bounds of a bucket, with the comparisons of the source language.\<close>

definition bucket_ok :: "RateLimitConfig \<Rightarrow> TokenBucket \<Rightarrow> bool" where
  "bucket_ok cfg b = (num_ge (tokens b) (Fin 0) \<and> num_le (tokens b) (maxTokens cfg))"

definition store_ok :: "RateLimitConfig \<Rightarrow> RateLimitStore \<Rightarrow> bool" where
  "store_ok cfg s = (\<forall>k b ttl. contents s k = Some (b, ttl) \<longrightarrow> bucket_ok cfg b)"

text \<open>
  What happens to the store of a distributed limiter: a \<^verbatim>\<open>limit(key)\<close> call at some clock
  reading (a rejected call changes nothing), the expiry of an entry, and the store
  becoming unavailable or available again.
\<close>

datatype store_event = Limit real string | Expire string | Availability bool bool

fun store_step :: "RateLimitConfig \<Rightarrow> RateLimitStore \<Rightarrow> store_event \<Rightarrow> RateLimitStore" where
  "store_step cfg s (Limit now key) =
     (case DistributedRateLimiter_limit cfg s now key of
        Inl e \<Rightarrow> s
      | Inr (res, s') \<Rightarrow> s')"
| "store_step cfg s (Expire k) = s\<lparr>contents := (contents s)(k := None)\<rparr>"
| "store_step cfg s (Availability g p) = s\<lparr>get_succeeds := g, set_succeeds := p\<rparr>"

definition store_run ::
  "RateLimitConfig \<Rightarrow> RateLimitStore \<Rightarrow> store_event list \<Rightarrow> RateLimitStore" where
  "store_run cfg s events = foldl (store_step cfg) s events"

definition empty_store :: RateLimitStore where
  "empty_store = \<lparr>contents = Map.empty, get_succeeds = True, set_succeeds = True\<rparr>"

text \<open>A sequence of \<^verbatim>\<open>limit(key)\<close> calls on a sliding-window limiter, each with its clock reading.\<close>

definition window_step ::
  "SlidingWindowRateLimiter \<Rightarrow> real \<times> string \<Rightarrow> SlidingWindowRateLimiter" where
  "window_step W c =
     (case SlidingWindowRateLimiter_limit W (fst c) (snd c) of
        Inl e \<Rightarrow> W
      | Inr (res, W') \<Rightarrow> W')"

definition window_run ::
  "SlidingWindowRateLimiter \<Rightarrow> (real \<times> string) list \<Rightarrow> SlidingWindowRateLimiter" where
  "window_run W calls = foldl window_step W calls"

text \<open>
  What the limiter's own pushes keep true of every stored log: it is not empty, each entry
  counts one request, and all entries but one total less than \<open>maxRequests\<close>.
\<close>

definition window_inv :: "SlidingWindowRateLimiter \<Rightarrow> bool" where
  "window_inv W =
     (\<forall>k es. windows W k = Some es \<longrightarrow>
        es \<noteq> [] \<and> (\<forall>e\<in>set es. count e = Fin 1)
        \<and> \<not> num_ge (Fin (real (length es) - 1)) (maxRequests W))"

text \<open>
  The intermediate values of the sliding-window \<^verbatim>\<open>limit\<close>, by the names its body gives
  them: the stored array (\<^verbatim>\<open>this.windows.get(key) || []\<close>), the entries that survive the
  filter, and the sum the \<^verbatim>\<open>reduce\<close> computes.
\<close>

definition stored_log :: "SlidingWindowRateLimiter \<Rightarrow> string \<Rightarrow> WindowEntry list" where
  "stored_log W key = (case windows W key of Some es \<Rightarrow> es | None \<Rightarrow> [])"

definition surviving :: "SlidingWindowRateLimiter \<Rightarrow> real \<Rightarrow> string \<Rightarrow> WindowEntry list" where
  "surviving W now key =
     filter (\<lambda>entry. num_gt (timestamp entry) (num_sub (Fin now) (windowSize W)))
       (stored_log W key)"

definition totalRequests :: "WindowEntry list \<Rightarrow> number" where
  "totalRequests entries = foldl (\<lambda>sum entry. num_add sum (count entry)) (Fin 0) entries"

text \<open>
  The calls a client can make on the in-memory limiter, with the timer's \<^verbatim>\<open>cleanup()\<close>,
  each at its clock reading. A \<^verbatim>\<open>limit\<close> call that throws leaves the state as it was.
\<close>

datatype limiter_call =
  CallLimit string "number option" | CallGetStatus string | CallReset string
  | CallCleanup | CallDestroy

fun limiter_step :: "RateLimiter \<times> heap \<Rightarrow> real \<times> limiter_call \<Rightarrow> RateLimiter \<times> heap" where
  "limiter_step (L, h) (now, CallLimit key tokensRequested) =
     (case RateLimiter_limit L h now key tokensRequested of
        Inl e \<Rightarrow> (L, h)
      | Inr (res, L', h') \<Rightarrow> (L', h'))"
| "limiter_step (L, h) (now, CallGetStatus key) = (L, snd (getStatus L h now key))"
| "limiter_step (L, h) (now, CallReset key) = (reset L key, h)"
| "limiter_step (L, h) (now, CallCleanup) = (cleanup L h now, h)"
| "limiter_step (L, h) (now, CallDestroy) = (destroy L, h)"

definition limiter_run ::
  "RateLimiter \<times> heap \<Rightarrow> (real \<times> limiter_call) list \<Rightarrow> RateLimiter \<times> heap" where
  "limiter_run st calls = foldl limiter_step st calls"

text \<open>Every key refers to an allocated bucket within the capacity bounds.\<close>

definition limiter_ok :: "RateLimiter \<times> heap \<Rightarrow> bool" where
  "limiter_ok st =
     (\<forall>key a. buckets (fst st) key = Some a \<longrightarrow>
        a < length (snd st) \<and> bucket_ok (config (fst st)) (snd st ! a))"

section \<open>Scenario data\<close>

definition scenario_config :: RateLimitConfig where
  "scenario_config = \<lparr>maxTokens = Fin 5, refillRate = Fin 1, refillInterval = Fin 1000\<rparr>"

definition scenario_limiter :: RateLimiter where
  "scenario_limiter =
     \<lparr>config = scenario_config, buckets = [''user123'' \<mapsto> 0],
      cleanupInterval = Some (Fin 60000)\<rparr>"

definition scenario_store :: "TokenBucket \<Rightarrow> number \<Rightarrow> RateLimitStore" where
  "scenario_store b ttl =
     \<lparr>contents = [''ratelimit:user123'' \<mapsto> (b, ttl)],
      get_succeeds = True, set_succeeds = True\<rparr>"

definition scenario_window :: "WindowEntry list \<Rightarrow> SlidingWindowRateLimiter" where
  "scenario_window es =
     \<lparr>windows = [''user123'' \<mapsto> es], windowSize = Fin 1000, maxRequests = Fin 2\<rparr>"

section \<open>Auxiliary facts\<close>

text \<open>With a positive interval, at least one interval has elapsed exactly when the floor is positive.\<close>

lemma floor_pos_iff_interval:
  fixes e i :: real
  assumes "0 < i"
  shows "(0 < \<lfloor>e / i\<rfloor>) = (i \<le> e)"
  using assms by (simp add: pos_le_divide_eq)


text \<open>
  The distributed limiter repeats the body of \<^verbatim>\<open>refillTokens\<close> inline; its \<^verbatim>\<open>limit\<close> is
  the decision on the bucket that \<open>refillTokens\<close> computes.
\<close>

lemma Distributed_limit_via_refillTokens:
  "DistributedRateLimiter_limit cfg s now key =
     (case store_get s (''ratelimit:'' @ key) of
        Inl e \<Rightarrow> Inl e
      | Inr data \<Rightarrow>
          let b0 = (case data of Some b \<Rightarrow> b
                    | None \<Rightarrow> \<lparr>tokens = maxTokens cfg, lastRefill = Fin now\<rparr>);
              bucket = refillTokens cfg now b0
          in if num_ge (tokens bucket) (Fin 1)
             then (case store_set s (''ratelimit:'' @ key)
                          (bucket\<lparr>tokens := num_sub (tokens bucket) (Fin 1)\<rparr>)
                          (num_mul (refillInterval cfg) (Fin 2)) of
                     Inl e \<Rightarrow> Inl e
                   | Inr s' \<Rightarrow>
                       Inr (\<lparr>allowed = True,
                             remaining = num_floor (num_sub (tokens bucket) (Fin 1)),
                             resetAt = num_add (lastRefill bucket) (refillInterval cfg),
                             retryAfter = None\<rparr>, s'))
             else Inr (\<lparr>allowed = False, remaining = Fin 0,
                        resetAt = num_add (lastRefill bucket) (refillInterval cfg),
                        retryAfter = Some (num_ceil (num_div
                           (num_sub (refillInterval cfg) (num_sub (Fin now) (lastRefill b0)))
                           (Fin 1000)))\<rparr>, s))"
  unfolding DistributedRateLimiter_limit_def refillTokens_def Let_def
  by (simp split: sum.splits option.splits)

text \<open>
  \<^verbatim>\<open>getStatus\<close> on a well-formed heap: the result, and the heap with the temporary copy
  appended.
\<close>

lemma getStatus_absent:
  "buckets L key = None \<Longrightarrow>
   getStatus L h now key =
     (\<lparr>allowed = True, remaining = maxTokens (config L),
       resetAt = num_add (Fin now) (refillInterval (config L)), retryAfter = None\<rparr>, h)"
  by (simp add: getStatus_def)

lemma getStatus_present:
  assumes "buckets L key = Some a" "a < length h"
  shows "getStatus L h now key =
     (\<lparr>allowed = num_ge (tokens (refillTokens (config L) now (h ! a))) (Fin 1),
       remaining = num_floor (tokens (refillTokens (config L) now (h ! a))),
       resetAt = num_add (lastRefill (h ! a)) (refillInterval (config L)),
       retryAfter = None\<rparr>,
      h @ [refillTokens (config L) now (h ! a)])"
  using assms by (simp add: getStatus_def refillTokens_at_def Let_def nth_append)

lemma getStatus_heap_grows:
  assumes "heap_wf L h"
  shows "\<exists>zs. snd (getStatus L h now key) = h @ zs"
proof (cases "buckets L key")
  case None
  then show ?thesis by (simp add: getStatus_absent)
next
  case (Some a)
  with assms have "a < length h" by (simp add: heap_wf_def)
  with Some show ?thesis by (simp add: getStatus_present)
qed

lemma getStatus_result_append:
  assumes "heap_wf L h"
  shows "fst (getStatus L (h @ zs) now key) = fst (getStatus L h now key)"
proof (cases "buckets L key")
  case None
  then show ?thesis by (simp add: getStatus_absent)
next
  case (Some a)
  with assms have "a < length h" by (simp add: heap_wf_def)
  with Some show ?thesis by (simp add: getStatus_present nth_append)
qed

lemma heap_wf_append: "heap_wf L h \<Longrightarrow> heap_wf L (h @ zs)"
  by (fastforce simp: heap_wf_def)

lemma getStatus_calls_heap:
  "heap_wf L h \<Longrightarrow> \<exists>zs. snd (getStatus_calls L h key readings) = h @ zs"
proof (induction readings arbitrary: h)
  case Nil
  then show ?case by simp
next
  case (Cons now readings)
  obtain zs where z: "snd (getStatus L h now key) = h @ zs"
    using getStatus_heap_grows [OF Cons.prems] by blast
  have "heap_wf L (h @ zs)" using Cons.prems by (rule heap_wf_append)
  from Cons.IH [OF this] obtain ys where
    "snd (getStatus_calls L (h @ zs) key readings) = (h @ zs) @ ys" by blast
  with z show ?case
    by (auto simp: Let_def split: prod.splits)
qed

lemma getStatus_calls_results:
  "heap_wf L h \<Longrightarrow>
   fst (getStatus_calls L h key readings) = map (\<lambda>now. fst (getStatus L h now key)) readings"
proof (induction readings arbitrary: h)
  case Nil
  then show ?case by simp
next
  case (Cons now readings)
  obtain zs where z: "snd (getStatus L h now key) = h @ zs"
    using getStatus_heap_grows [OF Cons.prems] by blast
  have wf: "heap_wf L (h @ zs)" using Cons.prems by (rule heap_wf_append)
  have "fst (getStatus_calls L (h @ zs) key readings)
          = map (\<lambda>now. fst (getStatus L (h @ zs) now key)) readings"
    by (rule Cons.IH [OF wf])
  also have "\<dots> = map (\<lambda>now. fst (getStatus L h now key)) readings"
    by (simp add: getStatus_result_append [OF Cons.prems])
  finally show ?case using z
    by (auto simp: Let_def split: prod.splits)
qed




text \<open>One allowed call of the distributed limiter, evaluated.\<close>

lemma scenario_store_limit:
  "DistributedRateLimiter_limit scenario_config
      (scenario_store \<lparr>tokens = Fin 0, lastRefill = Fin 0\<rparr> (Fin 7)) 2000 ''user123''
   = Inr (\<lparr>allowed = True, remaining = Fin 1, resetAt = Fin 3000, retryAfter = None\<rparr>,
          scenario_store \<lparr>tokens = Fin 1, lastRefill = Fin 2000\<rparr> (Fin 2000))"
  by (simp add: DistributedRateLimiter_limit_def scenario_store_def scenario_config_def
        store_get_def store_set_def json_roundtrip_def json_number_def num_sub_def Let_def)

text \<open>One denied call of the distributed limiter, evaluated.\<close>

lemma scenario_store_denied:
  "DistributedRateLimiter_limit scenario_config
      (scenario_store \<lparr>tokens = Fin 0, lastRefill = Fin 0\<rparr> (Fin 7)) 500 ''user123''
   = Inr (\<lparr>allowed = False, remaining = Fin 0, resetAt = Fin 1000, retryAfter = Some (Fin 1)\<rparr>,
          scenario_store \<lparr>tokens = Fin 0, lastRefill = Fin 0\<rparr> (Fin 7))"
  by (simp add: DistributedRateLimiter_limit_def scenario_store_def scenario_config_def
        store_get_def store_set_def json_roundtrip_def json_number_def num_sub_def Let_def
        ceiling_eq_iff)

text \<open>Two allowed calls on the empty store.\<close>

lemma scenario_store_run:
  "store_run scenario_config empty_store [Limit 0 ''user123'', Limit 0 ''user123'']
   = scenario_store \<lparr>tokens = Fin 3, lastRefill = Fin 0\<rparr> (Fin 2000)"
  by (simp add: store_run_def DistributedRateLimiter_limit_def empty_store_def
        scenario_store_def scenario_config_def store_get_def store_set_def
        json_roundtrip_def json_number_def num_sub_def Let_def)

subsection \<open>Capacity bounds\<close>

lemma num_min_le_left: "num_ge (num_min a x) (Fin 1) \<Longrightarrow> num_le (num_min a x) a"
  by (cases a; cases x) (simp_all add: num_le_def)

lemma num_min_not_gt: "\<not> num_gt (num_min a x) a"
  by (cases a; cases x) simp_all

lemma consume_ok:
  "num_ge t (Fin 1) \<Longrightarrow> num_le t M \<Longrightarrow>
   num_ge (json_number (num_sub t (Fin 1))) (Fin 0) \<and> num_le (json_number (num_sub t (Fin 1))) M"
  by (cases t; cases M) (simp_all add: num_le_def num_sub_def json_number_def)

lemma refill_upper:
  "\<not> num_gt (tokens b) (maxTokens cfg) \<Longrightarrow>
   \<not> num_gt (tokens (refillTokens cfg now b)) (maxTokens cfg)"
  by (simp add: refillTokens_def Let_def num_min_not_gt)

lemma refilled_bounded:
  assumes "num_ge (tokens (refillTokens cfg now b)) (Fin 1)"
    and "num_le (tokens b) (maxTokens cfg)"
  shows "num_le (tokens (refillTokens cfg now b)) (maxTokens cfg)"
  using assms by (auto simp: refillTokens_def Let_def num_min_le_left split: if_splits)

lemma num_le_refl_ge_one: "num_ge M (Fin 1) \<Longrightarrow> num_le M M"
  by (cases M) (simp_all add: num_le_def)

lemma refillTokens_fresh:
  "refillTokens cfg now \<lparr>tokens = t, lastRefill = Fin now\<rparr> = \<lparr>tokens = t, lastRefill = Fin now\<rparr>"
  by (cases "refillInterval cfg") (simp_all add: refillTokens_def Let_def num_sub_def)

lemma limit_store_ok:
  assumes ok: "store_ok cfg s"
    and call: "DistributedRateLimiter_limit cfg s now key = Inr (res, s')"
  shows "store_ok cfg s'"
proof (cases "allowed res")
  case False
  then have "s' = s" using call
    by (auto simp: Distributed_limit_via_refillTokens Let_def store_set_def
             split: sum.splits if_splits)
  with ok show ?thesis by simp
next
  case True
  define b0 where "b0 = (case contents s (''ratelimit:'' @ key) of
                           Some (b0, ttl) \<Rightarrow> b0
                         | None \<Rightarrow> \<lparr>tokens = maxTokens cfg, lastRefill = Fin now\<rparr>)"
  define b where "b = refillTokens cfg now b0"
  have ge: "num_ge (tokens b) (Fin 1)"
    and s': "s' = s\<lparr>contents := (contents s)(''ratelimit:'' @ key \<mapsto>
               (json_roundtrip (b\<lparr>tokens := num_sub (tokens b) (Fin 1)\<rparr>),
                num_mul (refillInterval cfg) (Fin 2)))\<rparr>"
    using call True
    by (auto simp: Distributed_limit_via_refillTokens Let_def store_get_def store_set_def
          b_def b0_def split: sum.splits if_splits option.splits)
  have le: "num_le (tokens b) (maxTokens cfg)"
  proof (cases "contents s (''ratelimit:'' @ key)")
    case None
    then have "b = \<lparr>tokens = maxTokens cfg, lastRefill = Fin now\<rparr>"
      by (simp add: b_def b0_def refillTokens_fresh)
    with ge show ?thesis by (simp add: num_le_refl_ge_one)
  next
    case (Some v)
    then obtain st ttl where "contents s (''ratelimit:'' @ key) = Some (st, ttl)"
      by (cases v) simp
    with ok have "num_le (tokens b0) (maxTokens cfg)"
      by (auto simp: store_ok_def bucket_ok_def b0_def)
    with ge show ?thesis unfolding b_def by (intro refilled_bounded)
  qed
  from consume_ok [OF ge le]
  have "bucket_ok cfg (json_roundtrip (b\<lparr>tokens := num_sub (tokens b) (Fin 1)\<rparr>))"
    by (simp add: bucket_ok_def json_roundtrip_def)
  with ok show ?thesis
    unfolding s' store_ok_def by auto
qed

lemma store_step_ok: "store_ok cfg s \<Longrightarrow> store_ok cfg (store_step cfg s ev)"
proof (cases ev)
  case (Limit now key)
  assume "store_ok cfg s"
  then show ?thesis using Limit
    by (auto split: sum.splits dest: limit_store_ok)
next
  case (Expire k)
  assume "store_ok cfg s"
  then show ?thesis using Expire by (auto simp: store_ok_def split: if_splits)
next
  case (Availability g p)
  assume "store_ok cfg s"
  then show ?thesis using Availability by (simp add: store_ok_def)
qed

lemma store_run_ok: "store_ok cfg s \<Longrightarrow> store_ok cfg (store_run cfg s events)"
  unfolding store_run_def
  by (induction events arbitrary: s) (simp_all add: store_step_ok)

lemma refill_bucket_ok:
  assumes "maxTokens cfg = Fin m" "refillRate cfg = Fin r" "0 < r" "bucket_ok cfg b"
  shows "bucket_ok cfg (refillTokens cfg now b)"
proof -
  obtain t where t: "tokens b = Fin t" "0 \<le> t" "t \<le> m"
    using assms(1,4) by (cases "tokens b") (simp_all add: bucket_ok_def num_le_def)
  define k where "k = num_floor (num_div (num_sub (Fin now) (lastRefill b)) (refillInterval cfg))"
  show ?thesis
  proof (cases "num_gt k (Fin 0)")
    case False
    then show ?thesis using assms(4) by (simp add: refillTokens_def Let_def k_def)
  next
    case True
    have "bucket_ok cfg (b\<lparr>tokens := num_min (maxTokens cfg)
             (num_add (tokens b) (num_mul k (refillRate cfg))), lastRefill := Fin now\<rparr>)"
    proof (cases k)
      case (Fin j)
      with True have "0 < j" by simp
      with \<open>0 < r\<close> have "0 \<le> j * r" by simp
      with t show ?thesis using assms(1,2) Fin
        by (simp add: bucket_ok_def num_le_def)
    next
      case PosInf
      with t show ?thesis using assms(1,2,3)
        by (simp add: bucket_ok_def num_le_def)
    next
      case NegInf
      with True show ?thesis by simp
    next
      case NaN
      with True show ?thesis by simp
    qed
    with True show ?thesis by (simp add: refillTokens_def Let_def k_def)
  qed
qed

lemma limiter_ok_subset:
  assumes "limiter_ok (L, h)"
    and "config L' = config L"
    and "\<forall>key a. buckets L' key = Some a \<longrightarrow> buckets L key = Some a"
  shows "limiter_ok (L', h @ zs)"
  unfolding limiter_ok_def
proof (intro allI impI)
  fix key a
  assume "buckets (fst (L', h @ zs)) key = Some a"
  with assms(3) have "buckets L key = Some a" by simp
  with assms(1) have "a < length h" "bucket_ok (config L) (h ! a)"
    by (simp_all add: limiter_ok_def)
  with assms(2) show "a < length (snd (L', h @ zs))
      \<and> bucket_ok (config (fst (L', h @ zs))) (snd (L', h @ zs) ! a)"
    by (simp add: nth_append)
qed

lemma limiter_step_ok:
  assumes "limiter_ok st"
  shows "limiter_ok (limiter_step st c)"
proof -
  obtain L h where st: "st = (L, h)" by (cases st)
  obtain now call where c: "c = (now, call)" by (cases c)
  have ok: "limiter_ok (L, h)" using assms st by simp
  then have wf: "heap_wf L h" by (simp add: limiter_ok_def heap_wf_def)
  show ?thesis
  proof (cases call)
    case (CallLimit key cost)
    then show ?thesis using ok st c by (simp add: RateLimiter_limit_def)
  next
    case (CallGetStatus key)
    obtain zs where "snd (getStatus L h now key) = h @ zs"
      using getStatus_heap_grows [OF wf] by blast
    then show ?thesis
      using limiter_ok_subset [OF ok, of L zs] st c CallGetStatus by simp
  next
    case (CallReset key)
    have "limiter_ok (reset L key, h @ [])"
      by (rule limiter_ok_subset [OF ok]) (auto simp: reset_def split: if_splits)
    then show ?thesis using st c CallReset by simp
  next
    case CallCleanup
    have "limiter_ok (cleanup L h now, h @ [])"
      by (rule limiter_ok_subset [OF ok])
         (auto simp: cleanup_def Let_def split: option.splits if_splits)
    then show ?thesis using st c CallCleanup by simp
  next
    case CallDestroy
    have "limiter_ok (destroy L, h @ [])"
      by (rule limiter_ok_subset [OF ok]) (auto simp: destroy_def)
    then show ?thesis using st c CallDestroy by simp
  qed
qed

lemma limiter_run_ok: "limiter_ok st \<Longrightarrow> limiter_ok (limiter_run st calls)"
  unfolding limiter_run_def
  by (induction calls arbitrary: st) (simp_all add: limiter_step_ok)

lemma scenario_limiter_ok:
  "limiter_ok (scenario_limiter, [\<lparr>tokens = Fin 3, lastRefill = Fin 0\<rparr>])"
  by (simp add: limiter_ok_def scenario_limiter_def bucket_ok_def scenario_config_def num_le_def)

subsection \<open>Denials of the distributed limiter\<close>

lemma num_ge_min_one:
  fixes m t k r :: real
  assumes "1 \<le> m" "0 \<le> t" "1 \<le> k" "1 \<le> r"
  shows "1 \<le> min m (t + k * r)"
proof -
  have "1 * 1 \<le> k * r" using assms by (intro mult_mono) auto
  then show ?thesis using assms by simp
qed

lemma refill_allows:
  assumes "1 \<le> m" "1 \<le> r" "0 < i" "num_ge (tokens b) (Fin 0)" "lastRefill b \<noteq> NaN"
    and cfg: "cfg = \<lparr>maxTokens = Fin m, refillRate = Fin r, refillInterval = Fin i\<rparr>"
    and denied: "\<not> num_ge (tokens (refillTokens cfg now b)) (Fin 1)"
  shows "num_ge (num_ceil (num_div (num_sub (refillInterval cfg) (num_sub (Fin now) (lastRefill b)))
            (Fin 1000))) (Fin 1)"
proof (cases "lastRefill b")
  case (Fin l)
  show ?thesis
  proof (cases "i \<le> now - l")
    case True
    then have k: "1 \<le> \<lfloor>(now - l) / i\<rfloor>"
      using floor_pos_iff_interval [OF \<open>0 < i\<close>, of "now - l"] by simp
    then have k': "(1::real) \<le> of_int \<lfloor>(now - l) / i\<rfloor>" by linarith
    have "num_ge (tokens (refillTokens cfg now b)) (Fin 1)"
    proof (cases "tokens b")
      case (Fin t)
      with assms(4) have "0 \<le> t" by simp
      from num_ge_min_one [OF \<open>1 \<le> m\<close> this k' \<open>1 \<le> r\<close>]
      show ?thesis using Fin \<open>lastRefill b = Fin l\<close> True k \<open>0 < i\<close>
        by (simp add: refillTokens_def cfg num_sub_def Let_def)
    next
      case PosInf
      then show ?thesis using \<open>lastRefill b = Fin l\<close> True k \<open>0 < i\<close> \<open>1 \<le> m\<close>
        by (simp add: refillTokens_def cfg num_sub_def Let_def)
    next
      case NegInf
      with assms(4) show ?thesis by simp
    next
      case NaN
      with assms(4) show ?thesis by simp
    qed
    with denied show ?thesis by simp
  next
    case False
    then have "0 < (i - (now - l)) / 1000" by simp
    then have "1 \<le> \<lceil>(i - (now - l)) / 1000\<rceil>" by linarith
    then show ?thesis using Fin by (simp add: cfg num_sub_def)
  qed
next
  case PosInf
  then show ?thesis by (simp add: cfg num_sub_def)
next
  case NegInf
  have "num_ge (tokens (refillTokens cfg now b)) (Fin 1)"
  proof (cases "tokens b")
    case (Fin t)
    then show ?thesis using NegInf \<open>0 < i\<close> \<open>1 \<le> m\<close> \<open>1 \<le> r\<close>
      by (simp add: refillTokens_def cfg num_sub_def Let_def)
  next
    case PosInf
    then show ?thesis using NegInf \<open>0 < i\<close> \<open>1 \<le> m\<close> \<open>1 \<le> r\<close>
      by (simp add: refillTokens_def cfg num_sub_def Let_def)
  next
    case NegInf
    with assms(4) show ?thesis by simp
  next
    case NaN
    with assms(4) show ?thesis by simp
  qed
  with denied show ?thesis by simp
next
  case NaN
  with assms(5) show ?thesis by simp
qed

subsection \<open>The sliding-window log\<close>

lemma num_gt_irrefl: "\<not> num_gt x x"
  by (cases x) simp_all

lemma total_of_ones:
  "\<forall>e\<in>set es. count e = Fin 1 \<Longrightarrow>
   foldl (\<lambda>sum entry. num_add sum (count entry)) (Fin a) es = Fin (a + real (length es))"
  by (induction es arbitrary: a) (simp_all add: add.assoc)

lemma num_ge_mono: "num_ge (Fin a) M \<Longrightarrow> a \<le> b \<Longrightarrow> num_ge (Fin b) M"
  by (cases M) simp_all

lemma filter_keeps_all:
  assumes "length (filter P xs) = length xs"
  shows "filter P xs = xs"
proof -
  have "\<forall>x\<in>set xs. P x"
  proof
    fix x assume "x \<in> set xs"
    show "P x"
    proof (rule ccontr)
      assume "\<not> P x"
      with \<open>x \<in> set xs\<close> have "length (filter P xs) < length xs" by (rule length_filter_less)
      with assms show False by simp
    qed
  qed
  then show ?thesis by simp
qed

lemma window_limit_stored:
  assumes inv: "window_inv W"
    and call: "SlidingWindowRateLimiter_limit W now key = Inr (res, W')"
  shows "windows W' key =
           Some (filter (\<lambda>entry. num_gt (timestamp entry) (num_sub (Fin now) (windowSize W)))
                   (case windows W key of Some es \<Rightarrow> es | None \<Rightarrow> [])
                 @ (if allowed res then [\<lparr>timestamp = Fin now, count = Fin 1\<rparr>] else []))"
    and "windowSize W' = windowSize W" and "maxRequests W' = maxRequests W"
    and "\<forall>k. k \<noteq> key \<longrightarrow> windows W' k = windows W k"
    and "window_inv W'"
proof -
  define old where "old = (case windows W key of Some es \<Rightarrow> es | None \<Rightarrow> [])"
  define surv where
    "surv = filter (\<lambda>entry. num_gt (timestamp entry) (num_sub (Fin now) (windowSize W))) old"
  define total where "total = foldl (\<lambda>sum entry. num_add sum (count entry)) (Fin 0) surv"
  have ones: "\<forall>e\<in>set old. count e = Fin 1"
  proof (cases "windows W key")
    case None
    then show ?thesis by (simp add: old_def)
  next
    case (Some es)
    with inv have "\<forall>e\<in>set es. count e = Fin 1" by (simp add: window_inv_def)
    with Some show ?thesis by (simp add: old_def)
  qed
  then have "\<forall>e\<in>set surv. count e = Fin 1" by (simp add: surv_def)
  then have total: "total = Fin (real (length surv))"
    unfolding total_def using total_of_ones [of surv 0] by simp
  have lim: "SlidingWindowRateLimiter_limit W now key =
      (if num_ge total (maxRequests W)
       then (case surv of
               [] \<Rightarrow> Inl TypeError
             | oldestEntry # rest \<Rightarrow>
                 Inr (\<lparr>allowed = False, remaining = Fin 0,
                       resetAt = num_add (timestamp oldestEntry) (windowSize W),
                       retryAfter = Some (num_ceil (num_div
                          (num_sub (num_add (timestamp oldestEntry) (windowSize W)) (Fin now))
                          (Fin 1000)))\<rparr>, W))
       else Inr (\<lparr>allowed = True,
                  remaining = num_sub (num_sub (maxRequests W) total) (Fin 1),
                  resetAt = num_add (Fin now) (windowSize W),
                  retryAfter = None\<rparr>,
                 W\<lparr>windows := (windows W)(key \<mapsto>
                      surv @ [\<lparr>timestamp = Fin now, count = Fin 1\<rparr>])\<rparr>))"
    unfolding total_def surv_def old_def
    by (simp add: SlidingWindowRateLimiter_limit_def Let_def)
  have goal_eq: "filter (\<lambda>entry. num_gt (timestamp entry) (num_sub (Fin now) (windowSize W)))
                   (case windows W key of Some es \<Rightarrow> es | None \<Rightarrow> []) = surv"
    by (simp add: surv_def old_def)
  show "windows W' key = Some (filter (\<lambda>entry. num_gt (timestamp entry) (num_sub (Fin now) (windowSize W)))
                   (case windows W key of Some es \<Rightarrow> es | None \<Rightarrow> [])
                 @ (if allowed res then [\<lparr>timestamp = Fin now, count = Fin 1\<rparr>] else []))"
  proof (cases "num_ge total (maxRequests W)")
    case False
    then show ?thesis using call unfolding goal_eq lim by auto
  next
    case True
    then have res: "\<not> allowed res" "W' = W" "surv \<noteq> []"
      using call unfolding lim by (auto split: list.splits)
    then have "old \<noteq> []" by (auto simp: surv_def)
    then have stored: "windows W key = Some old"
      by (auto simp: old_def split: option.splits)
    with inv have few: "\<not> num_ge (Fin (real (length old) - 1)) (maxRequests W)"
      by (simp add: window_inv_def)
    have "length surv = length old"
    proof (rule ccontr)
      assume "length surv \<noteq> length old"
      moreover have "length surv \<le> length old" by (simp add: surv_def)
      ultimately have "real (length surv) \<le> real (length old) - 1" by linarith
      with True total have "num_ge (Fin (real (length old) - 1)) (maxRequests W)"
        using num_ge_mono by simp
      with few show False by simp
    qed
    then have "surv = old" unfolding surv_def by (rule filter_keeps_all)
    with res stored show ?thesis unfolding goal_eq by simp
  qed
  show "windowSize W' = windowSize W" "maxRequests W' = maxRequests W"
    using call unfolding lim by (auto split: if_splits list.splits)
  show others: "\<forall>k. k \<noteq> key \<longrightarrow> windows W' k = windows W k"
    using call unfolding lim by (auto split: if_splits list.splits)
  show "window_inv W'"
  proof (cases "num_ge total (maxRequests W)")
    case True
    then have "W' = W" using call unfolding lim by (auto split: list.splits)
    with inv show ?thesis by simp
  next
    case False
    then have W': "W' = W\<lparr>windows := (windows W)(key \<mapsto>
                      surv @ [\<lparr>timestamp = Fin now, count = Fin 1\<rparr>])\<rparr>"
      using call unfolding lim by auto
    show ?thesis
      unfolding window_inv_def
    proof (intro allI impI)
      fix k es
      assume k: "windows W' k = Some es"
      show "es \<noteq> [] \<and> (\<forall>e\<in>set es. count e = Fin 1)
              \<and> \<not> num_ge (Fin (real (length es) - 1)) (maxRequests W')"
      proof (cases "k = key")
        case True
        with k W' have "es = surv @ [\<lparr>timestamp = Fin now, count = Fin 1\<rparr>]" by simp
        then show ?thesis
          using False total \<open>\<forall>e\<in>set surv. count e = Fin 1\<close> W' by simp
      next
        case False
        with k W' have "windows W k = Some es" by simp
        with inv W' show ?thesis by (simp add: window_inv_def)
      qed
    qed
  qed
qed

lemma window_step_inv: "window_inv W \<Longrightarrow> window_inv (window_step W c)"
  by (auto simp: window_step_def dest: window_limit_stored(5) split: sum.splits)

lemma window_step_config:
  "windowSize (window_step W c) = windowSize W \<and> maxRequests (window_step W c) = maxRequests W"
  by (auto simp: window_step_def SlidingWindowRateLimiter_limit_def Let_def
           split: sum.splits if_splits list.splits)

lemma window_run_inv:
  "window_inv W \<Longrightarrow>
   window_inv (window_run W calls) \<and> windowSize (window_run W calls) = windowSize W
     \<and> maxRequests (window_run W calls) = maxRequests W"
  unfolding window_run_def
  by (induction calls arbitrary: W) (simp_all add: window_step_inv window_step_config)

lemma num_gt_not_ge: "num_gt x y \<Longrightarrow> \<not> num_ge y x"
  by (cases x; cases y) simp_all

text \<open>Calls on a window of 1000 ms with at most 2 requests, evaluated.\<close>

lemma scenario_window_run:
  "window_run \<lparr>windows = Map.empty, windowSize = Fin 1000, maxRequests = Fin 2\<rparr>
      [(0, ''user123''), (600, ''user123'')]
   = scenario_window [\<lparr>timestamp = Fin 0, count = Fin 1\<rparr>, \<lparr>timestamp = Fin 600, count = Fin 1\<rparr>]"
  by (simp add: window_run_def window_step_def SlidingWindowRateLimiter_limit_def
        scenario_window_def num_sub_def Let_def)

text \<open>The outcome of the sliding-window \<^verbatim>\<open>limit\<close> through its intermediate values.\<close>

lemma window_limit_outcome:
  "SlidingWindowRateLimiter_limit W now key =
     (if num_ge (totalRequests (surviving W now key)) (maxRequests W)
      then (case surviving W now key of
              [] \<Rightarrow> Inl TypeError
            | oldestEntry # rest \<Rightarrow>
                Inr (\<lparr>allowed = False, remaining = Fin 0,
                      resetAt = num_add (timestamp oldestEntry) (windowSize W),
                      retryAfter = Some (num_ceil (num_div
                         (num_sub (num_add (timestamp oldestEntry) (windowSize W)) (Fin now))
                         (Fin 1000)))\<rparr>, W))
      else Inr (\<lparr>allowed = True,
                 remaining = num_sub (num_sub (maxRequests W)
                               (totalRequests (surviving W now key))) (Fin 1),
                 resetAt = num_add (Fin now) (windowSize W),
                 retryAfter = None\<rparr>,
                W\<lparr>windows := (windows W)(key \<mapsto>
                     surviving W now key @ [\<lparr>timestamp = Fin now, count = Fin 1\<rparr>])\<rparr>))"
  by (simp add: SlidingWindowRateLimiter_limit_def surviving_def stored_log_def
        totalRequests_def Let_def)

lemma window_limit_returns:
  assumes "maxRequests W = Fin m" "0 < m"
  shows "\<exists>res W'. SlidingWindowRateLimiter_limit W now key = Inr (res, W')"
proof (cases "surviving W now key")
  case Nil
  then have "\<not> num_ge (totalRequests (surviving W now key)) (maxRequests W)"
    using assms by (simp add: totalRequests_def)
  then show ?thesis by (simp add: window_limit_outcome)
next
  case (Cons e es)
  then show ?thesis by (simp add: window_limit_outcome)
qed

lemma surviving_drop_boundary:
  assumes "windows W key = Some (xs @ e # ys)"
    and "timestamp e = num_sub (Fin now) (windowSize W)"
  shows "surviving (W\<lparr>windows := (windows W)(key \<mapsto> xs @ ys)\<rparr>) now key = surviving W now key"
  using assms by (simp add: surviving_def stored_log_def num_gt_irrefl)

lemma scenario_surviving:
  "surviving (scenario_window [\<lparr>timestamp = Fin 0, count = Fin 1\<rparr>,
                               \<lparr>timestamp = Fin 600, count = Fin 1\<rparr>]) 1000 ''user123''
     = [\<lparr>timestamp = Fin 600, count = Fin 1\<rparr>]"
  by (simp add: surviving_def stored_log_def scenario_window_def num_sub_def)

section \<open>The in-memory limit method\<close>

text \<open>
  C1. \<^verbatim>\<open>RateLimiter.limit\<close> returns no result: for every limiter, key and cost the call
  throws \<open>Error("Not implemented")\<close>. In particular the first call of scenario 1
  (\<open>maxTokens = 5\<close>, \<open>refillRate = 1\<close>, \<open>refillInterval = 1000\<close>, key \<open>user123\<close>, \<open>t = 0\<close>,
  default cost) on a newly constructed limiter throws, where the documented algorithm
  returns \<open>allowed = true\<close> with \<open>remaining = 4\<close>.
\<close>

theorem C1_limit_not_implemented:
  "RateLimiter_limit L h now key tokensRequested = Inl (Error ''Not implemented'')
   \<and> RateLimiter_new scenario_config
     = Inr \<lparr>config = scenario_config, buckets = Map.empty, cleanupInterval = Some (Fin 60000)\<rparr>
   \<and> RateLimiter_limit
       \<lparr>config = scenario_config, buckets = Map.empty, cleanupInterval = Some (Fin 60000)\<rparr>
       [] 0 ''user123'' None
     = Inl (Error ''Not implemented'')"
  by (simp add: RateLimiter_new_def RateLimiter_limit_def)

section \<open>The refill step\<close>




section \<open>The capacity invariant\<close>

text \<open>
  C3. The stored token count stays within \<open>0 \<le> tokens \<le> maxTokens\<close>. For the distributed
  limiter: every sequence of \<^verbatim>\<open>limit\<close> calls, entry expiries and store outages keeps the
  bound on every stored bucket, and started on the empty store it leaves only buckets
  within the bound, because a missing bucket is created with \<open>tokens = maxTokens\<close>, the
  refill never raises \<open>tokens\<close> above \<open>maxTokens\<close> (and keeps the whole bound when
  \<open>refillRate\<close> is positive), and a token is consumed only when the refilled bucket holds
  at least one. For the in-memory limiter: every sequence of its operations keeps the
  bound on every bucket its map refers to.
\<close>

theorem C3_capacity_invariant:
  "(store_ok cfg s \<longrightarrow> store_ok cfg (store_run cfg s events))
   \<and> (\<forall>k b ttl. contents (store_run cfg empty_store events) k = Some (b, ttl) \<longrightarrow>
         num_ge (tokens b) (Fin 0) \<and> num_le (tokens b) (maxTokens cfg))
   \<and> (\<not> num_gt (tokens b) (maxTokens cfg) \<longrightarrow>
         \<not> num_gt (tokens (refillTokens cfg now b)) (maxTokens cfg))
   \<and> (maxTokens cfg = Fin m \<and> refillRate cfg = Fin r \<and> 0 < r \<and> bucket_ok cfg b \<longrightarrow>
         bucket_ok cfg (refillTokens cfg now b))
   \<and> (DistributedRateLimiter_limit cfg s now key = Inr (res, s') \<and> allowed res \<longrightarrow>
         num_ge (tokens (refillTokens cfg now
                   (case contents s (''ratelimit:'' @ key) of
                      Some (b0, ttl) \<Rightarrow> b0
                    | None \<Rightarrow> \<lparr>tokens = maxTokens cfg, lastRefill = Fin now\<rparr>))) (Fin 1))
   \<and> (limiter_ok st \<longrightarrow> limiter_ok (limiter_run st calls))"
proof (intro conjI impI allI)
  assume "store_ok cfg s"
  then show "store_ok cfg (store_run cfg s events)" by (rule store_run_ok)
next
  fix k b ttl
  assume c: "contents (store_run cfg empty_store events) k = Some (b, ttl)"
  have "store_ok cfg empty_store" by (simp add: store_ok_def empty_store_def)
  then have "store_ok cfg (store_run cfg empty_store events)" by (rule store_run_ok)
  with c have "bucket_ok cfg b" unfolding store_ok_def by blast
  then show "num_ge (tokens b) (Fin 0)" "num_le (tokens b) (maxTokens cfg)"
    by (simp_all add: bucket_ok_def)
next
  assume "\<not> num_gt (tokens b) (maxTokens cfg)"
  then show "\<not> num_gt (tokens (refillTokens cfg now b)) (maxTokens cfg)" by (rule refill_upper)
next
  assume "maxTokens cfg = Fin m \<and> refillRate cfg = Fin r \<and> 0 < r \<and> bucket_ok cfg b"
  then show "bucket_ok cfg (refillTokens cfg now b)" using refill_bucket_ok by blast
next
  assume "DistributedRateLimiter_limit cfg s now key = Inr (res, s') \<and> allowed res"
  then show "num_ge (tokens (refillTokens cfg now
                   (case contents s (''ratelimit:'' @ key) of
                      Some (b0, ttl) \<Rightarrow> b0
                    | None \<Rightarrow> \<lparr>tokens = maxTokens cfg, lastRefill = Fin now\<rparr>))) (Fin 1)"
    by (auto simp: Distributed_limit_via_refillTokens Let_def store_get_def
             split: sum.splits if_splits option.splits)
next
  assume "limiter_ok st"
  then show "limiter_ok (limiter_run st calls)" by (rule limiter_run_ok)
qed

text \<open>
  Two allowed calls at \<open>t = 0\<close> leave 3 of 5 tokens in the store; a refill of that bucket
  nine seconds later is capped at 5; status, \<^verbatim>\<open>limit\<close> and cleanup calls on an in-memory
  limiter holding that bucket keep it within the bound.
\<close>

theorem C3_capacity_invariant_witness:
  "store_ok scenario_config (scenario_store \<lparr>tokens = Fin 3, lastRefill = Fin 0\<rparr> (Fin 2000))
   \<and> num_ge (Fin 3) (Fin 0) \<and> num_le (Fin 3) (Fin 5)
   \<and> \<not> num_gt (tokens (refillTokens scenario_config 9000 \<lparr>tokens = Fin 3, lastRefill = Fin 0\<rparr>))
           (Fin 5)
   \<and> bucket_ok scenario_config
        (refillTokens scenario_config 9000 \<lparr>tokens = Fin 3, lastRefill = Fin 0\<rparr>)
   \<and> num_ge (tokens (refillTokens scenario_config 2000 \<lparr>tokens = Fin 0, lastRefill = Fin 0\<rparr>))
        (Fin 1)
   \<and> limiter_ok (limiter_run (scenario_limiter, [\<lparr>tokens = Fin 3, lastRefill = Fin 0\<rparr>])
        [(2000, CallGetStatus ''user123''), (2000, CallLimit ''user123'' None),
         (400000, CallCleanup)])"
proof -
  let ?b = "\<lparr>tokens = Fin 3, lastRefill = Fin 0\<rparr>"
  have e: "store_ok scenario_config empty_store"
    by (simp add: store_ok_def empty_store_def)
  have one: "store_ok scenario_config (scenario_store ?b (Fin 2000))"
    using C3_capacity_invariant [where cfg = scenario_config and s = empty_store
        and events = "[Limit 0 ''user123'', Limit 0 ''user123'']", THEN conjunct1] e
    by (simp add: scenario_store_run)
  have c: "contents (store_run scenario_config empty_store
              [Limit 0 ''user123'', Limit 0 ''user123'']) ''ratelimit:user123''
           = Some (?b, Fin 2000)"
    by (simp add: scenario_store_run scenario_store_def)
  have two: "num_ge (Fin 3) (Fin 0) \<and> num_le (Fin 3) (Fin 5)"
    using C3_capacity_invariant [where cfg = scenario_config
        and events = "[Limit 0 ''user123'', Limit 0 ''user123'']",
        THEN conjunct2, THEN conjunct1, rule_format, OF c]
    by (simp add: scenario_config_def)
  have ok: "bucket_ok scenario_config ?b"
    by (simp add: bucket_ok_def scenario_config_def num_le_def)
  have three: "\<not> num_gt (tokens (refillTokens scenario_config 9000 ?b)) (Fin 5)"
    using C3_capacity_invariant [where cfg = scenario_config and b = ?b and now = 9000,
        THEN conjunct2, THEN conjunct2, THEN conjunct1]
    by (simp add: scenario_config_def)
  have four: "bucket_ok scenario_config (refillTokens scenario_config 9000 ?b)"
    using C3_capacity_invariant [where cfg = scenario_config and b = ?b and now = 9000
        and m = 5 and r = 1,
        THEN conjunct2, THEN conjunct2, THEN conjunct2, THEN conjunct1] ok
    by (simp add: scenario_config_def)
  have five: "num_ge (tokens (refillTokens scenario_config 2000
                 \<lparr>tokens = Fin 0, lastRefill = Fin 0\<rparr>)) (Fin 1)"
    using C3_capacity_invariant [where cfg = scenario_config
        and s = "scenario_store \<lparr>tokens = Fin 0, lastRefill = Fin 0\<rparr> (Fin 7)"
        and now = 2000 and key = "''user123''"
        and res = "\<lparr>allowed = True, remaining = Fin 1, resetAt = Fin 3000, retryAfter = None\<rparr>"
        and s' = "scenario_store \<lparr>tokens = Fin 1, lastRefill = Fin 2000\<rparr> (Fin 2000)",
        THEN conjunct2, THEN conjunct2, THEN conjunct2, THEN conjunct2, THEN conjunct1]
      scenario_store_limit
    by (simp add: scenario_store_def)
  have six: "limiter_ok (limiter_run (scenario_limiter, [?b])
        [(2000, CallGetStatus ''user123''), (2000, CallLimit ''user123'' None),
         (400000, CallCleanup)])"
    using C3_capacity_invariant [where st = "(scenario_limiter, [?b])"
        and calls = "[(2000, CallGetStatus ''user123''), (2000, CallLimit ''user123'' None),
                      (400000, CallCleanup)]",
        THEN conjunct2, THEN conjunct2, THEN conjunct2, THEN conjunct2, THEN conjunct2]
      scenario_limiter_ok
    by simp
  show ?thesis using one two three four five six by simp
qed

section \<open>The sliding-window boundary\<close>

text \<open>
  C4. A sliding-window \<^verbatim>\<open>limit(key)\<close> call at time \<open>now\<close> counts the stored entries with
  timestamp strictly greater than \<open>now - windowSize\<close> and no others: it is denied when
  the sum of their counts reaches \<open>maxRequests\<close> (and throws when none survives), and
  otherwise allowed, storing the surviving entries and the new one. An entry whose
  timestamp is exactly \<open>now - windowSize\<close> does not survive the pruning, and removing it
  from the stored log changes neither the surviving entries nor the result. With a
  finite positive \<open>maxRequests\<close> the call returns.
\<close>

theorem C4_window_boundary:
  "(num_ge (totalRequests (surviving W now key)) (maxRequests W) \<and> surviving W now key = [] \<longrightarrow>
      SlidingWindowRateLimiter_limit W now key = Inl TypeError)
   \<and> (num_ge (totalRequests (surviving W now key)) (maxRequests W)
        \<and> surviving W now key = oldestEntry # rest \<longrightarrow>
      SlidingWindowRateLimiter_limit W now key =
        Inr (\<lparr>allowed = False, remaining = Fin 0,
              resetAt = num_add (timestamp oldestEntry) (windowSize W),
              retryAfter = Some (num_ceil (num_div
                 (num_sub (num_add (timestamp oldestEntry) (windowSize W)) (Fin now))
                 (Fin 1000)))\<rparr>, W))
   \<and> (\<not> num_ge (totalRequests (surviving W now key)) (maxRequests W) \<longrightarrow>
      SlidingWindowRateLimiter_limit W now key =
        Inr (\<lparr>allowed = True,
              remaining = num_sub (num_sub (maxRequests W)
                            (totalRequests (surviving W now key))) (Fin 1),
              resetAt = num_add (Fin now) (windowSize W),
              retryAfter = None\<rparr>,
             W\<lparr>windows := (windows W)(key \<mapsto>
                  surviving W now key @ [\<lparr>timestamp = Fin now, count = Fin 1\<rparr>])\<rparr>))
   \<and> (e \<in> set (surviving W now key) \<longleftrightarrow>
        e \<in> set (stored_log W key)
        \<and> num_gt (timestamp e) (num_sub (Fin now) (windowSize W)))
   \<and> (timestamp e = num_sub (Fin now) (windowSize W) \<longrightarrow> e \<notin> set (surviving W now key))
   \<and> (windows W key = Some (xs @ e # ys) \<and> timestamp e = num_sub (Fin now) (windowSize W) \<longrightarrow>
        surviving (W\<lparr>windows := (windows W)(key \<mapsto> xs @ ys)\<rparr>) now key = surviving W now key
        \<and> map_sum id fst (SlidingWindowRateLimiter_limit W now key)
            = map_sum id fst (SlidingWindowRateLimiter_limit
                                (W\<lparr>windows := (windows W)(key \<mapsto> xs @ ys)\<rparr>) now key))
   \<and> (maxRequests W = Fin m \<and> 0 < m \<longrightarrow>
        (\<exists>res W'. SlidingWindowRateLimiter_limit W now key = Inr (res, W')))"
proof (intro conjI impI)
  assume "num_ge (totalRequests (surviving W now key)) (maxRequests W) \<and> surviving W now key = []"
  then show "SlidingWindowRateLimiter_limit W now key = Inl TypeError"
    by (auto simp: window_limit_outcome)
next
  assume "num_ge (totalRequests (surviving W now key)) (maxRequests W)
        \<and> surviving W now key = oldestEntry # rest"
  then show "SlidingWindowRateLimiter_limit W now key =
        Inr (\<lparr>allowed = False, remaining = Fin 0,
              resetAt = num_add (timestamp oldestEntry) (windowSize W),
              retryAfter = Some (num_ceil (num_div
                 (num_sub (num_add (timestamp oldestEntry) (windowSize W)) (Fin now))
                 (Fin 1000)))\<rparr>, W)"
    by (auto simp: window_limit_outcome)
next
  assume "\<not> num_ge (totalRequests (surviving W now key)) (maxRequests W)"
  then show "SlidingWindowRateLimiter_limit W now key =
        Inr (\<lparr>allowed = True,
              remaining = num_sub (num_sub (maxRequests W)
                            (totalRequests (surviving W now key))) (Fin 1),
              resetAt = num_add (Fin now) (windowSize W),
              retryAfter = None\<rparr>,
             W\<lparr>windows := (windows W)(key \<mapsto>
                  surviving W now key @ [\<lparr>timestamp = Fin now, count = Fin 1\<rparr>])\<rparr>)"
    by (simp add: window_limit_outcome)
next
  show "e \<in> set (surviving W now key) \<longleftrightarrow>
        e \<in> set (stored_log W key)
        \<and> num_gt (timestamp e) (num_sub (Fin now) (windowSize W))"
    by (auto simp: surviving_def)
next
  assume "timestamp e = num_sub (Fin now) (windowSize W)"
  then show "e \<notin> set (surviving W now key)"
    by (simp add: surviving_def num_gt_irrefl)
next
  assume a: "windows W key = Some (xs @ e # ys)
      \<and> timestamp e = num_sub (Fin now) (windowSize W)"
  then show s: "surviving (W\<lparr>windows := (windows W)(key \<mapsto> xs @ ys)\<rparr>) now key
      = surviving W now key"
    by (simp add: surviving_drop_boundary)
  show "map_sum id fst (SlidingWindowRateLimiter_limit W now key)
            = map_sum id fst (SlidingWindowRateLimiter_limit
                                (W\<lparr>windows := (windows W)(key \<mapsto> xs @ ys)\<rparr>) now key)"
    by (simp add: window_limit_outcome s split: list.splits)
next
  assume "maxRequests W = Fin m \<and> 0 < m"
  then show "\<exists>res W'. SlidingWindowRateLimiter_limit W now key = Inr (res, W')"
    using window_limit_returns by blast
qed

text \<open>
  Window 1000 ms, at most 2 requests, entries at \<open>t = 0\<close> and \<open>t = 600\<close>. At \<open>t = 1000\<close>
  the entry at 0 lies on the boundary: one request is counted and the call is allowed,
  as it is without that entry. At \<open>t = 700\<close> both entries count and the call is denied.
  With \<open>maxRequests = 0\<close> and no entry the call throws.
\<close>

theorem C4_window_boundary_witness:
  "SlidingWindowRateLimiter_limit
      (scenario_window [\<lparr>timestamp = Fin 0, count = Fin 1\<rparr>, \<lparr>timestamp = Fin 600, count = Fin 1\<rparr>])
      1000 ''user123''
     = Inr (\<lparr>allowed = True, remaining = Fin 0, resetAt = Fin 2000, retryAfter = None\<rparr>,
            scenario_window [\<lparr>timestamp = Fin 600, count = Fin 1\<rparr>,
                             \<lparr>timestamp = Fin 1000, count = Fin 1\<rparr>])
   \<and> \<lparr>timestamp = Fin 0, count = Fin 1\<rparr>
       \<notin> set (surviving (scenario_window [\<lparr>timestamp = Fin 0, count = Fin 1\<rparr>,
                                             \<lparr>timestamp = Fin 600, count = Fin 1\<rparr>])
                 1000 ''user123'')
   \<and> map_sum id fst (SlidingWindowRateLimiter_limit
        (scenario_window [\<lparr>timestamp = Fin 600, count = Fin 1\<rparr>]) 1000 ''user123'')
     = Inr \<lparr>allowed = True, remaining = Fin 0, resetAt = Fin 2000, retryAfter = None\<rparr>
   \<and> SlidingWindowRateLimiter_limit
      (scenario_window [\<lparr>timestamp = Fin 0, count = Fin 1\<rparr>, \<lparr>timestamp = Fin 600, count = Fin 1\<rparr>])
      700 ''user123''
     = Inr (\<lparr>allowed = False, remaining = Fin 0, resetAt = Fin 1000, retryAfter = Some (Fin 1)\<rparr>,
            scenario_window [\<lparr>timestamp = Fin 0, count = Fin 1\<rparr>,
                             \<lparr>timestamp = Fin 600, count = Fin 1\<rparr>])
   \<and> SlidingWindowRateLimiter_limit
        \<lparr>windows = Map.empty, windowSize = Fin 1000, maxRequests = Fin 0\<rparr> 1000 ''user123''
     = Inl TypeError"
proof -
  let ?e = "\<lparr>timestamp = Fin 0, count = Fin 1\<rparr>"
  let ?f = "\<lparr>timestamp = Fin 600, count = Fin 1\<rparr>"
  let ?R = "scenario_window [?e, ?f]"
  let ?Z = "\<lparr>windows = Map.empty, windowSize = Fin 1000, maxRequests = Fin 0\<rparr>"
  have tot: "\<not> num_ge (totalRequests (surviving ?R 1000 ''user123'')) (maxRequests ?R)"
    unfolding scenario_surviving by (simp add: totalRequests_def scenario_window_def)
  have one: "SlidingWindowRateLimiter_limit ?R 1000 ''user123''
     = Inr (\<lparr>allowed = True, remaining = Fin 0, resetAt = Fin 2000, retryAfter = None\<rparr>,
            scenario_window [?f, \<lparr>timestamp = Fin 1000, count = Fin 1\<rparr>])"
    using C4_window_boundary [where W = ?R and now = 1000 and key = "''user123''",
        THEN conjunct2, THEN conjunct2, THEN conjunct1] tot
    by (simp add: scenario_surviving totalRequests_def) (simp add: scenario_window_def num_sub_def)
  have h: "windows ?R ''user123'' = Some ([] @ ?e # [?f])
           \<and> timestamp ?e = num_sub (Fin 1000) (windowSize ?R)"
    by (simp add: scenario_window_def num_sub_def)
  have two: "?e \<notin> set (surviving ?R 1000 ''user123'')"
    using C4_window_boundary [where W = ?R and now = 1000 and e = ?e,
        THEN conjunct2, THEN conjunct2, THEN conjunct2, THEN conjunct2, THEN conjunct1] h
    by simp
  have w: "?R\<lparr>windows := (windows ?R)(''user123'' \<mapsto> [] @ [?f])\<rparr> = scenario_window [?f]"
    by (simp add: scenario_window_def)
  have three: "map_sum id fst (SlidingWindowRateLimiter_limit (scenario_window [?f]) 1000 ''user123'')
     = Inr \<lparr>allowed = True, remaining = Fin 0, resetAt = Fin 2000, retryAfter = None\<rparr>"
    using C4_window_boundary [where W = ?R and key = "''user123''" and xs = "[]" and e = ?e
        and ys = "[?f]" and now = 1000,
        THEN conjunct2, THEN conjunct2, THEN conjunct2, THEN conjunct2, THEN conjunct2,
        THEN conjunct1] h w one
    by simp
  have sd: "surviving ?R 700 ''user123'' = ?e # [?f]"
    by (simp add: surviving_def stored_log_def scenario_window_def num_sub_def)
  have four: "SlidingWindowRateLimiter_limit ?R 700 ''user123''
     = Inr (\<lparr>allowed = False, remaining = Fin 0, resetAt = Fin 1000, retryAfter = Some (Fin 1)\<rparr>,
            ?R)"
    using C4_window_boundary [where W = ?R and now = 700 and key = "''user123''"
        and oldestEntry = ?e and rest = "[?f]", THEN conjunct2, THEN conjunct1] sd
    by (simp add: totalRequests_def scenario_window_def num_sub_def ceiling_eq_iff)
  have five: "SlidingWindowRateLimiter_limit ?Z 1000 ''user123'' = Inl TypeError"
    using C4_window_boundary [where W = ?Z and now = 1000 and key = "''user123''",
        THEN conjunct1]
    by (simp add: surviving_def stored_log_def totalRequests_def)
  show ?thesis using one two three four five by simp
qed

section \<open>Status reads\<close>

text \<open>
  C5 (as amended). \<^verbatim>\<open>getStatus\<close> has no write to the limiter's map, and on a well-formed
  heap any number of \<^verbatim>\<open>getStatus(key)\<close> calls, at any clock readings, leave every stored
  bucket object as it was: the refill runs on a copy. Each call returns what a single
  call on the initial state returns at its clock reading, so \<open>N\<close> calls at one clock
  reading return \<open>N\<close> identical results.
\<close>

theorem C5_status_reads_only:
  assumes "heap_wf L h"
  shows "fst (getStatus_calls L h key readings) = map (\<lambda>now. fst (getStatus L h now key)) readings
     \<and> fst (getStatus_calls L h key (replicate N now)) = replicate N (fst (getStatus L h now key))
     \<and> (\<forall>k a. buckets L k = Some a \<longrightarrow> snd (getStatus_calls L h key readings) ! a = h ! a)"
proof (intro conjI allI impI)
  show "fst (getStatus_calls L h key readings) = map (\<lambda>now. fst (getStatus L h now key)) readings"
    using assms by (rule getStatus_calls_results)
  show "fst (getStatus_calls L h key (replicate N now)) = replicate N (fst (getStatus L h now key))"
    using getStatus_calls_results [OF assms, of key "replicate N now"] by (simp add: map_replicate)
next
  fix k a
  assume "buckets L k = Some a"
  with assms have a: "a < length h" by (simp add: heap_wf_def)
  obtain zs where "snd (getStatus_calls L h key readings) = h @ zs"
    using getStatus_calls_heap [OF assms] by blast
  with a show "snd (getStatus_calls L h key readings) ! a = h ! a"
    by (simp add: nth_append)
qed

text \<open>
  Calls at different clock readings need not agree. On a newly constructed limiter the
  status of a key read at \<open>t = 0\<close> and at \<open>t = 1\<close> differs in \<open>resetAt\<close>; for a bucket at
  0 tokens last refilled at \<open>t = 0\<close>, the status at \<open>t = 500\<close> is denied with
  \<open>remaining = 0\<close>, and at \<open>t = 1000\<close>, with no call in between, allowed with
  \<open>remaining = 1\<close>.
\<close>

theorem C5_identical_results_counterexample:
  "fst (getStatus_calls
          \<lparr>config = scenario_config, buckets = Map.empty, cleanupInterval = Some (Fin 60000)\<rparr>
          [] ''user123'' [0, 1])
     = [\<lparr>allowed = True, remaining = Fin 5, resetAt = Fin 1000, retryAfter = None\<rparr>,
        \<lparr>allowed = True, remaining = Fin 5, resetAt = Fin 1001, retryAfter = None\<rparr>]
   \<and> fst (getStatus_calls scenario_limiter [\<lparr>tokens = Fin 0, lastRefill = Fin 0\<rparr>] ''user123''
          [500, 1000])
     = [\<lparr>allowed = False, remaining = Fin 0, resetAt = Fin 1000, retryAfter = None\<rparr>,
        \<lparr>allowed = True, remaining = Fin 1, resetAt = Fin 1000, retryAfter = None\<rparr>]"
  by (simp add: getStatus_def scenario_limiter_def refillTokens_at_def refillTokens_def
        scenario_config_def num_sub_def Let_def)

text \<open>Three status reads at \<open>t = 2000\<close>, and the stored bucket after two reads.\<close>

theorem C5_status_reads_only_witness:
  "heap_wf scenario_limiter [\<lparr>tokens = Fin 0, lastRefill = Fin 0\<rparr>]
   \<and> fst (getStatus_calls scenario_limiter [\<lparr>tokens = Fin 0, lastRefill = Fin 0\<rparr>] ''user123''
            (replicate 3 2000))
       = replicate 3 \<lparr>allowed = True, remaining = Fin 2, resetAt = Fin 1000, retryAfter = None\<rparr>
   \<and> snd (getStatus_calls scenario_limiter [\<lparr>tokens = Fin 0, lastRefill = Fin 0\<rparr>] ''user123''
            [500, 1000]) ! 0
       = \<lparr>tokens = Fin 0, lastRefill = Fin 0\<rparr>"
proof -
  have wf: "heap_wf scenario_limiter [\<lparr>tokens = Fin 0, lastRefill = Fin 0\<rparr>]"
    by (simp add: heap_wf_def scenario_limiter_def)
  have one: "fst (getStatus scenario_limiter [\<lparr>tokens = Fin 0, lastRefill = Fin 0\<rparr>] 2000 ''user123'')
      = \<lparr>allowed = True, remaining = Fin 2, resetAt = Fin 1000, retryAfter = None\<rparr>"
    by (simp add: getStatus_def scenario_limiter_def refillTokens_at_def refillTokens_def
          scenario_config_def num_sub_def Let_def)
  have key: "buckets scenario_limiter ''user123'' = Some 0"
    by (simp add: scenario_limiter_def)
  show ?thesis
    using C5_status_reads_only [OF wf, of "''user123''" "[500, 1000]" 3 2000] wf one key
    by simp
qed

section \<open>Construction\<close>

text \<open>
  C6 (as amended). Every construction succeeds: the constructors of \<^verbatim>\<open>RateLimiter\<close> and
  \<^verbatim>\<open>SlidingWindowRateLimiter\<close> raise no error for any argument, non-positive values
  included, and keep the values as supplied, never clamped; \<^verbatim>\<open>getStatus\<close> of an unknown
  key reports the supplied \<open>maxTokens\<close> as \<open>remaining\<close>.
\<close>

theorem C6_constructors_accept:
  "RateLimiter_new cfg
     = Inr \<lparr>config = cfg, buckets = Map.empty, cleanupInterval = Some (Fin 60000)\<rparr>
   \<and> SlidingWindowRateLimiter_new ws mr
     = Inr \<lparr>windows = Map.empty, windowSize = ws, maxRequests = mr\<rparr>
   \<and> remaining (fst (getStatus
        \<lparr>config = cfg, buckets = Map.empty, cleanupInterval = Some (Fin 60000)\<rparr> [] now key))
     = maxTokens cfg"
  by (simp add: RateLimiter_new_def SlidingWindowRateLimiter_new_def getStatus_def)

text \<open>Non-positive values are accepted where the claim expects a configuration error.\<close>

theorem C6_no_configuration_error_counterexample:
  "RateLimiter_new \<lparr>maxTokens = Fin (- 5), refillRate = Fin 0, refillInterval = Fin (- 1000)\<rparr>
     = Inr \<lparr>config = \<lparr>maxTokens = Fin (- 5), refillRate = Fin 0, refillInterval = Fin (- 1000)\<rparr>,
            buckets = Map.empty, cleanupInterval = Some (Fin 60000)\<rparr>
   \<and> SlidingWindowRateLimiter_new (Fin 0) (Fin (- 1))
     = Inr \<lparr>windows = Map.empty, windowSize = Fin 0, maxRequests = Fin (- 1)\<rparr>"
  by (simp add: RateLimiter_new_def SlidingWindowRateLimiter_new_def)

section \<open>Write-back of the distributed limiter\<close>

text \<open>
  C7 (as amended). An allowed \<^verbatim>\<open>DistributedRateLimiter.limit(key)\<close> call writes the
  updated bucket (the refilled bucket less one token) to the store under
  \<open>ratelimit:key\<close> with a time-to-live of \<open>2 * refillInterval\<close>, and changes nothing else
  in the store; a denied call performs no write, and the store is as before.
\<close>

theorem C7_write_back:
  "DistributedRateLimiter_limit cfg s now key = Inr (res, s') \<longrightarrow>
     (if allowed res
      then s' = (let b = refillTokens cfg now
                           (case contents s (''ratelimit:'' @ key) of
                              Some (b0, ttl) \<Rightarrow> b0
                            | None \<Rightarrow> \<lparr>tokens = maxTokens cfg, lastRefill = Fin now\<rparr>)
                 in s\<lparr>contents := (contents s)(''ratelimit:'' @ key \<mapsto>
                         (json_roundtrip (b\<lparr>tokens := num_sub (tokens b) (Fin 1)\<rparr>),
                          num_mul (refillInterval cfg) (Fin 2)))\<rparr>)
      else s' = s)"
  by (auto simp: Distributed_limit_via_refillTokens store_get_def store_set_def Let_def
           split: if_splits sum.splits option.splits)

text \<open>
  A denied call leaves the stored entry, and its time-to-live of 7 ms, as they were;
  nothing is written with a time-to-live of 2000 ms.
\<close>

theorem C7_denied_call_writes_nothing_counterexample:
  "DistributedRateLimiter_limit scenario_config
      (scenario_store \<lparr>tokens = Fin 0, lastRefill = Fin 0\<rparr> (Fin 7)) 500 ''user123''
   = Inr (\<lparr>allowed = False, remaining = Fin 0, resetAt = Fin 1000, retryAfter = Some (Fin 1)\<rparr>,
          scenario_store \<lparr>tokens = Fin 0, lastRefill = Fin 0\<rparr> (Fin 7))"
  by (rule scenario_store_denied)

text \<open>The allowed call at \<open>t = 2000\<close> replaces the entry, with a time-to-live of 2000 ms.\<close>

theorem C7_write_back_witness:
  "scenario_store \<lparr>tokens = Fin 1, lastRefill = Fin 2000\<rparr> (Fin 2000)
     = (scenario_store \<lparr>tokens = Fin 0, lastRefill = Fin 0\<rparr> (Fin 7))
         \<lparr>contents := (contents (scenario_store \<lparr>tokens = Fin 0, lastRefill = Fin 0\<rparr> (Fin 7)))
            (''ratelimit:user123'' \<mapsto> (\<lparr>tokens = Fin 1, lastRefill = Fin 2000\<rparr>, Fin 2000))\<rparr>"
  using C7_write_back [where cfg = scenario_config
      and s = "scenario_store \<lparr>tokens = Fin 0, lastRefill = Fin 0\<rparr> (Fin 7)"
      and now = 2000 and key = "''user123''"
      and res = "\<lparr>allowed = True, remaining = Fin 1, resetAt = Fin 3000, retryAfter = None\<rparr>"
      and s' = "scenario_store \<lparr>tokens = Fin 1, lastRefill = Fin 2000\<rparr> (Fin 2000)"]
    scenario_store_limit
  by (simp add: scenario_store_def scenario_config_def refillTokens_def json_roundtrip_def
        json_number_def num_sub_def Let_def)

section \<open>Store failures\<close>

text \<open>
  C8 (as amended). \<^verbatim>\<open>DistributedRateLimiter.limit(key)\<close> rejects with the store's failure
  when \<^verbatim>\<open>get\<close> fails, and when \<^verbatim>\<open>set\<close> fails in a call that found a token to consume. The
  fail-open decision is the caller's: the middleware of \<^verbatim>\<open>createRateLimitMiddleware\<close>
  calls \<^verbatim>\<open>next()\<close> whenever the \<^verbatim>\<open>limit\<close> call it makes rejects.
\<close>

theorem C8_store_failure_propagates:
  "(\<not> get_succeeds s \<longrightarrow> DistributedRateLimiter_limit cfg s now key = Inl StoreFailure)
   \<and> (get_succeeds s \<and> \<not> set_succeeds s
        \<and> num_ge (tokens (refillTokens cfg now
              (case contents s (''ratelimit:'' @ key) of
                 Some (b0, ttl) \<Rightarrow> b0
               | None \<Rightarrow> \<lparr>tokens = maxTokens cfg, lastRefill = Fin now\<rparr>))) (Fin 1) \<longrightarrow>
        DistributedRateLimiter_limit cfg s now key = Inl StoreFailure)
   \<and> (limit st now (case user req of
                       Some userId \<Rightarrow> if userId \<noteq> [] then userId else ip req
                     | None \<Rightarrow> ip req) = Inl e \<longrightarrow>
        createRateLimitMiddleware limit st now req = (Next, st))"
  by (auto simp: Distributed_limit_via_refillTokens store_get_def store_set_def Let_def
        createRateLimitMiddleware_def split: option.splits)

text \<open>With a failing \<^verbatim>\<open>get\<close>, or a failing \<^verbatim>\<open>set\<close>, the call rejects; it does not resolve as allowed.\<close>

theorem C8_limit_rejects_counterexample:
  "DistributedRateLimiter_limit scenario_config
     \<lparr>contents = Map.empty, get_succeeds = False, set_succeeds = True\<rparr> 0 ''user123''
     = Inl StoreFailure
   \<and> DistributedRateLimiter_limit scenario_config
     \<lparr>contents = Map.empty, get_succeeds = True, set_succeeds = False\<rparr> 0 ''user123''
     = Inl StoreFailure"
  by (simp add: DistributedRateLimiter_limit_def scenario_config_def
        store_get_def store_set_def num_sub_def Let_def)

text \<open>The two rejections, and the middleware letting the request pass.\<close>

theorem C8_store_failure_propagates_witness:
  "DistributedRateLimiter_limit scenario_config
     \<lparr>contents = Map.empty, get_succeeds = False, set_succeeds = True\<rparr> 0 ''user123''
     = Inl StoreFailure
   \<and> DistributedRateLimiter_limit scenario_config
     \<lparr>contents = Map.empty, get_succeeds = True, set_succeeds = False\<rparr> 0 ''user123''
     = Inl StoreFailure
   \<and> createRateLimitMiddleware (DistributedRateLimiter_limit scenario_config)
       \<lparr>contents = Map.empty, get_succeeds = False, set_succeeds = True\<rparr> 0
       \<lparr>ip = ''10.0.0.1'', user = Some ''user123''\<rparr>
     = (Next, \<lparr>contents = Map.empty, get_succeeds = False, set_succeeds = True\<rparr>)"
proof -
  let ?down = "\<lparr>contents = Map.empty, get_succeeds = False, set_succeeds = True\<rparr>"
  let ?ro = "\<lparr>contents = Map.empty, get_succeeds = True, set_succeeds = False\<rparr>"
  let ?req = "\<lparr>ip = ''10.0.0.1'', user = Some ''user123''\<rparr>"
  have a: "DistributedRateLimiter_limit scenario_config ?down 0 ''user123'' = Inl StoreFailure"
    using C8_store_failure_propagates [where s = ?down, THEN conjunct1] by simp
  have b: "DistributedRateLimiter_limit scenario_config ?ro 0 ''user123'' = Inl StoreFailure"
    using C8_store_failure_propagates [where s = ?ro
        and cfg = scenario_config and now = 0 and key = "''user123''",
        THEN conjunct2, THEN conjunct1]
    by (simp add: scenario_config_def refillTokens_def num_sub_def Let_def)
  have c: "createRateLimitMiddleware (DistributedRateLimiter_limit scenario_config) ?down 0 ?req
      = (Next, ?down)"
    using C8_store_failure_propagates [where limit = "DistributedRateLimiter_limit scenario_config"
        and st = ?down and now = 0 and req = ?req and e = StoreFailure,
        THEN conjunct2, THEN conjunct2] a
    by simp
  show ?thesis using a b c by simp
qed

section \<open>Pruning of the sliding-window log\<close>

text \<open>
  C9 (as amended). For a limiter constructed with a positive window size and then used
  for any sequence of \<^verbatim>\<open>limit\<close> calls, every further \<^verbatim>\<open>limit(key)\<close> call that returns,
  allowed or denied, leaves as the stored log of \<open>key\<close> exactly the earlier entries with
  timestamp greater than \<open>now - windowSize\<close>, followed by the new entry when the call is
  allowed; the stored log then has no entry with timestamp \<open>\<le> now - windowSize\<close>. The
  call is allowed exactly when the count of the surviving entries does not reach
  \<open>maxRequests\<close>, and with a finite positive \<open>maxRequests\<close> it returns.
\<close>

theorem C9_pruned_on_access:
  assumes "0 < w"
    and "SlidingWindowRateLimiter_new (Fin w) mr = Inr W0"
    and "W = window_run W0 calls"
  shows "(mr = Fin m \<and> 0 < m \<longrightarrow>
            (\<exists>res W'. SlidingWindowRateLimiter_limit W now key = Inr (res, W')))
     \<and> (SlidingWindowRateLimiter_limit W now key = Inr (res, W') \<longrightarrow>
           allowed res = (\<not> num_ge (totalRequests (surviving W now key)) mr)
           \<and> windows W' key =
               Some (surviving W now key
                     @ (if allowed res then [\<lparr>timestamp = Fin now, count = Fin 1\<rparr>] else []))
           \<and> (\<forall>e\<in>set (stored_log W' key).
                 \<not> num_le (timestamp e) (num_sub (Fin now) (Fin w))))"
proof (intro conjI impI)
  have W0: "W0 = \<lparr>windows = Map.empty, windowSize = Fin w, maxRequests = mr\<rparr>"
    using assms(2) by (simp add: SlidingWindowRateLimiter_new_def)
  then have "window_inv W0" by (simp add: window_inv_def)
  from window_run_inv [OF this, of calls] assms(3) W0
  have inv: "window_inv W" and ws: "windowSize W = Fin w" and mx: "maxRequests W = mr"
    by simp_all
  {
    assume "mr = Fin m \<and> 0 < m"
    with mx have "maxRequests W = Fin m" "0 < m" by simp_all
    then show "\<exists>res W'. SlidingWindowRateLimiter_limit W now key = Inr (res, W')"
      by (rule window_limit_returns)
  }
  assume call: "SlidingWindowRateLimiter_limit W now key = Inr (res, W')"
  show "allowed res = (\<not> num_ge (totalRequests (surviving W now key)) mr)"
    using call mx by (auto simp: window_limit_outcome split: if_splits list.splits)
  show stored: "windows W' key =
               Some (surviving W now key
                     @ (if allowed res then [\<lparr>timestamp = Fin now, count = Fin 1\<rparr>] else []))"
    using window_limit_stored(1) [OF inv call] by (simp add: surviving_def stored_log_def)
  show "\<forall>e\<in>set (stored_log W' key). \<not> num_le (timestamp e) (num_sub (Fin now) (Fin w))"
    using stored ws \<open>0 < w\<close>
    by (auto simp: stored_log_def surviving_def num_sub_def num_le_def dest: num_gt_not_ge)
qed

text \<open>
  With a window size of 0 the claim fails: the first call on a new limiter, at
  \<open>t = 1000\<close>, is allowed and stores its own entry, whose timestamp 1000 is
  \<open>\<le> now - windowSize = 1000\<close>.
\<close>

theorem C9_pruned_on_access_counterexample:
  "SlidingWindowRateLimiter_new (Fin 0) (Fin 10)
     = Inr \<lparr>windows = Map.empty, windowSize = Fin 0, maxRequests = Fin 10\<rparr>
   \<and> SlidingWindowRateLimiter_limit
       \<lparr>windows = Map.empty, windowSize = Fin 0, maxRequests = Fin 10\<rparr> 1000 ''user123''
     = Inr (\<lparr>allowed = True, remaining = Fin 9, resetAt = Fin 1000, retryAfter = None\<rparr>,
            \<lparr>windows = [''user123'' \<mapsto> [\<lparr>timestamp = Fin 1000, count = Fin 1\<rparr>]],
             windowSize = Fin 0, maxRequests = Fin 10\<rparr>)
   \<and> num_le (timestamp \<lparr>timestamp = Fin 1000, count = Fin 1\<rparr>) (num_sub (Fin 1000) (Fin 0))"
  by (simp add: SlidingWindowRateLimiter_new_def SlidingWindowRateLimiter_limit_def
        num_sub_def num_le_def Let_def)

text \<open>
  After calls at \<open>t = 0\<close> and \<open>t = 600\<close> on a window of 1000 ms with at most 2 requests: a
  call at \<open>t = 1000\<close> is allowed and stores the entries 600 and 1000, and a call at
  \<open>t = 700\<close> is denied and leaves the entries 0 and 600.
\<close>

theorem C9_pruned_on_access_witness:
  "(\<exists>res W'. SlidingWindowRateLimiter_limit
       (window_run \<lparr>windows = Map.empty, windowSize = Fin 1000, maxRequests = Fin 2\<rparr>
          [(0, ''user123''), (600, ''user123'')]) 1000 ''user123'' = Inr (res, W')
      \<and> allowed res
      \<and> windows W' ''user123''
          = Some [\<lparr>timestamp = Fin 600, count = Fin 1\<rparr>, \<lparr>timestamp = Fin 1000, count = Fin 1\<rparr>])
   \<and> (\<exists>res W'. SlidingWindowRateLimiter_limit
       (window_run \<lparr>windows = Map.empty, windowSize = Fin 1000, maxRequests = Fin 2\<rparr>
          [(0, ''user123''), (600, ''user123'')]) 700 ''user123'' = Inr (res, W')
      \<and> \<not> allowed res
      \<and> windows W' ''user123''
          = Some [\<lparr>timestamp = Fin 0, count = Fin 1\<rparr>, \<lparr>timestamp = Fin 600, count = Fin 1\<rparr>])"
proof -
  let ?Z0 = "\<lparr>windows = Map.empty, windowSize = Fin 1000, maxRequests = Fin 2\<rparr>"
  let ?R = "window_run ?Z0 [(0, ''user123''), (600, ''user123'')]"
  let ?e = "\<lparr>timestamp = Fin 0, count = Fin 1\<rparr>"
  let ?f = "\<lparr>timestamp = Fin 600, count = Fin 1\<rparr>"
  have pos: "(0::real) < 1000" and m: "Fin 2 = Fin 2 \<and> (0::real) < 2" by simp_all
  have new: "SlidingWindowRateLimiter_new (Fin 1000) (Fin 2) = Inr ?Z0"
    by (simp add: SlidingWindowRateLimiter_new_def)
  note inst = C9_pruned_on_access [where W = ?R and key = "''user123''", OF pos new refl]
  have s1: "surviving ?R 1000 ''user123'' = [?f]"
    by (simp add: scenario_window_run surviving_def stored_log_def scenario_window_def num_sub_def)
  have s2: "surviving ?R 700 ''user123'' = [?e, ?f]"
    by (simp add: scenario_window_run surviving_def stored_log_def scenario_window_def num_sub_def)
  obtain res1 W1 where c1: "SlidingWindowRateLimiter_limit ?R 1000 ''user123'' = Inr (res1, W1)"
    using inst [where now = 1000 and m = 2, THEN conjunct1] m by blast
  have a1: "allowed res1
      \<and> windows W1 ''user123'' = Some [?f, \<lparr>timestamp = Fin 1000, count = Fin 1\<rparr>]"
    using inst [where now = 1000 and res = res1 and W' = W1, THEN conjunct2] c1
    by (simp add: s1 totalRequests_def)
  obtain res2 W2 where c2: "SlidingWindowRateLimiter_limit ?R 700 ''user123'' = Inr (res2, W2)"
    using inst [where now = 700 and m = 2, THEN conjunct1] m by blast
  have a2: "\<not> allowed res2 \<and> windows W2 ''user123'' = Some [?e, ?f]"
    using inst [where now = 700 and res = res2 and W' = W2, THEN conjunct2] c2
    by (simp add: s2 totalRequests_def)
  show ?thesis using c1 a1 c2 a2 by blast
qed

section \<open>Retry-after of a denial\<close>

text \<open>
  C10 (as amended). For a configuration with \<open>maxTokens \<ge> 1\<close>, \<open>refillRate \<ge> 1\<close> and
  \<open>refillInterval > 0\<close>, and a stored bucket with \<open>tokens \<ge> 0\<close> whose \<open>lastRefill\<close> is a
  number, a \<^verbatim>\<open>DistributedRateLimiter.limit(key)\<close> call that returns \<open>allowed = false\<close>
  returns a \<open>retryAfter\<close> of at least 1.
\<close>

theorem C10_retryAfter_at_least_one:
  assumes "1 \<le> m" "1 \<le> r" "0 < i"
    and "\<forall>b ttl. contents s (''ratelimit:'' @ key) = Some (b, ttl) \<longrightarrow>
           num_ge (tokens b) (Fin 0) \<and> lastRefill b \<noteq> NaN"
    and "DistributedRateLimiter_limit
           \<lparr>maxTokens = Fin m, refillRate = Fin r, refillInterval = Fin i\<rparr> s now key
         = Inr (res, s')"
    and "\<not> allowed res"
  shows "\<exists>seconds. retryAfter res = Some seconds \<and> num_ge seconds (Fin 1)"
proof -
  let ?cfg = "\<lparr>maxTokens = Fin m, refillRate = Fin r, refillInterval = Fin i\<rparr>"
  let ?fresh = "\<lparr>tokens = maxTokens ?cfg, lastRefill = Fin now\<rparr>"
  obtain data where get: "store_get s (''ratelimit:'' @ key) = Inr data"
    using assms(5) by (auto simp: Distributed_limit_via_refillTokens split: sum.splits)
  define b0 where "b0 = (case data of Some b \<Rightarrow> b | None \<Rightarrow> ?fresh)"
  have ok: "num_ge (tokens b0) (Fin 0) \<and> lastRefill b0 \<noteq> NaN"
  proof (cases data)
    case None
    then show ?thesis using \<open>1 \<le> m\<close> by (simp add: b0_def)
  next
    case (Some b)
    then obtain ttl where "contents s (''ratelimit:'' @ key) = Some (b, ttl)"
      using get by (auto simp: store_get_def split: if_splits)
    with assms(4) Some show ?thesis by (simp add: b0_def)
  qed
  have denied: "\<not> num_ge (tokens (refillTokens ?cfg now b0)) (Fin 1)"
    and ra: "retryAfter res = Some (num_ceil (num_div
               (num_sub (refillInterval ?cfg) (num_sub (Fin now) (lastRefill b0))) (Fin 1000)))"
    using assms(5,6) get
    by (auto simp: Distributed_limit_via_refillTokens b0_def Let_def
             split: if_splits sum.splits)
  from refill_allows [OF assms(1-3) ok [THEN conjunct1] ok [THEN conjunct2] refl denied] ra
  show ?thesis by simp
qed

text \<open>
  With a negative refill interval the bound fails: \<open>maxTokens = 5\<close>, \<open>refillRate = 1\<close>,
  \<open>refillInterval = -1000\<close>, a stored bucket with 0 tokens last refilled at \<open>t = 0\<close>, and a
  call at \<open>t = 500\<close> give a denial with \<open>retryAfter = -1\<close>.
\<close>

theorem C10_retryAfter_counterexample:
  "DistributedRateLimiter_limit
      \<lparr>maxTokens = Fin 5, refillRate = Fin 1, refillInterval = Fin (- 1000)\<rparr>
      (scenario_store \<lparr>tokens = Fin 0, lastRefill = Fin 0\<rparr> (Fin 2000)) 500 ''user123''
   = Inr (\<lparr>allowed = False, remaining = Fin 0, resetAt = Fin (- 1000),
           retryAfter = Some (Fin (- 1))\<rparr>,
          scenario_store \<lparr>tokens = Fin 0, lastRefill = Fin 0\<rparr> (Fin 2000))"
  by (simp add: DistributedRateLimiter_limit_def scenario_store_def
        store_get_def num_sub_def Let_def floor_eq_iff ceiling_eq_iff)

text \<open>The denial at \<open>t = 500\<close> under the scenario's configuration has \<open>retryAfter = 1\<close>.\<close>

theorem C10_retryAfter_at_least_one_witness:
  "\<exists>seconds. retryAfter \<lparr>allowed = False, remaining = Fin 0, resetAt = Fin 1000,
                           retryAfter = Some (Fin 1)\<rparr> = Some seconds
              \<and> num_ge seconds (Fin 1)"
proof -
  have m: "(1::real) \<le> 5" and r: "(1::real) \<le> 1" and i: "(0::real) < 1000" by simp_all
  have stored: "\<forall>b ttl. contents (scenario_store \<lparr>tokens = Fin 0, lastRefill = Fin 0\<rparr> (Fin 7))
                  (''ratelimit:'' @ ''user123'') = Some (b, ttl) \<longrightarrow>
                num_ge (tokens b) (Fin 0) \<and> lastRefill b \<noteq> NaN"
    by (simp add: scenario_store_def)
  have denied: "\<not> allowed \<lparr>allowed = False, remaining = Fin 0, resetAt = Fin 1000,
                            retryAfter = Some (Fin 1)\<rparr>"
    by simp
  show ?thesis
    by (rule C10_retryAfter_at_least_one [OF m r i stored
          scenario_store_denied [unfolded scenario_config_def] denied])
qed

end
